theory Spec2Isabelle
  imports Main "HOL-Library.Word"
begin

unbundle bit_operations_syntax

section \<open>The Poisson spike source: data model\<close>

text \<open>
  A shallow embedding of \<^verbatim>\<open>spike_source_poisson.c\<close>. The file-level variables of the C
  program are the fields of one record, every function takes that record and returns it
  updated, and the calls into the SpiNNaker libraries that the program makes (fabric,
  recording subsystem, allocator, simulation interface) are appended to a trace kept in
  the same record, in the order the program makes them.

  Machine types. \<^verbatim>\<open>uint32_t\<close> is a 32-bit word. \<^verbatim>\<open>REAL\<close> is the ISO/IEC TR 18037 type
  \<^verbatim>\<open>accum\<close> (signed, 16 integer and 15 fraction bits) and \<^verbatim>\<open>UFRACT\<close> is
  \<^verbatim>\<open>unsigned long fract\<close> (32 fraction bits); both are kept as their 32-bit
  representation, so the \<^verbatim>\<open>REAL\<close> with bits \<open>b\<close> stands for \<open>sint b / 2^15\<close> and the
  \<^verbatim>\<open>UFRACT\<close> with bits \<open>b\<close> for \<open>uint b / 2^32\<close>. The parameter \<^verbatim>\<open>int id\<close> of
  \<^verbatim>\<open>set_spike_source_rate\<close> is compared with and subtracted from \<^verbatim>\<open>uint32_t\<close> values
  only, which C does after converting it to \<^verbatim>\<open>uint32_t\<close>; both callers pass a
  \<^verbatim>\<open>uint32_t\<close>, so the model takes the identifier as a 32-bit word.
\<close>

type_synonym uint32_t = "32 word"
type_synonym REAL = "32 word"
type_synonym UFRACT = "32 word"
type_synonym mars_kiss64_seed_t = "uint32_t list"

text \<open>
  Modelled from the spec: \<^verbatim>\<open>maths-util.h\<close>, which declares \<^verbatim>\<open>REAL\<close>, \<^verbatim>\<open>UFRACT\<close>,
  \<^verbatim>\<open>REAL_CONST\<close>, \<^verbatim>\<open>REAL_COMPARE\<close> and \<^verbatim>\<open>EXP\<close>, is not among the sources. The
  specification calls \<^verbatim>\<open>REAL\<close> a fixed-point real and \<^verbatim>\<open>UFRACT\<close> an unsigned fractional
  in \<open>[0,1]\<close>. Their arithmetic is written out on the representations: a product is
  computed exactly, brought to the result type by dropping the low bits (rounding
  towards minus infinity) and wraps at 32 bits; the conversion of a \<^verbatim>\<open>REAL\<close> to
  \<^verbatim>\<open>UFRACT\<close> keeps the 15 fraction bits; \<^verbatim>\<open>REAL_COMPARE(x, <=, y)\<close> is the comparison of
  the signed values; \<^verbatim>\<open>EXP\<close> is a parameter (see \<open>library\<close> below). Every result below
  that goes through a product has 0 or 1.0 as a factor, where the rounding plays no part.
\<close>

definition REAL_CONST_1 :: REAL where
  "REAL_CONST_1 = 0x8000"

definition real_mul :: "REAL \<Rightarrow> REAL \<Rightarrow> REAL" where
  "real_mul a b = word_of_int ((sint a * sint b) div 2 ^ 15)"

definition real_mul_ufract :: "REAL \<Rightarrow> UFRACT \<Rightarrow> REAL" where
  "real_mul_ufract a f = word_of_int ((sint a * uint f) div 2 ^ 32)"

definition real_to_ufract :: "REAL \<Rightarrow> UFRACT" where
  "real_to_ufract r = push_bit 17 r"

text \<open>\<^verbatim>\<open>struct spike_source_t\<close>.\<close>

record spike_source_t =
  start_ticks :: uint32_t
  end_ticks :: uint32_t
  is_fast_source :: bool
  exp_minus_lambda :: UFRACT
  mean_isi_ticks :: REAL
  time_to_spike_ticks :: REAL

text \<open>
  \<^verbatim>\<open>struct timed_out_spikes\<close>: a two-word header and the flexible array
  \<^verbatim>\<open>out_spikes[]\<close>, which holds the layers one after the other, each
  \<^verbatim>\<open>n_spike_buffer_words\<close> words long. Its field \<^verbatim>\<open>time\<close> is called \<open>spikes_time\<close> here,
  the name \<open>time\<close> being the tick counter's.
\<close>

record timed_out_spikes =
  spikes_time :: uint32_t
  n_buffers :: uint32_t
  out_spikes :: "uint32_t list"

text \<open>
  \<^verbatim>\<open>struct parameters\<close>. Its field \<^verbatim>\<open>time_between_spikes\<close> is called
  \<open>p_time_between_spikes\<close> here, the plain name being the file-level variable's.
\<close>

record parameters =
  has_key :: bool
  key :: uint32_t
  set_rate_neuron_id_mask :: uint32_t
  random_backoff_us :: uint32_t
  p_time_between_spikes :: uint32_t
  seconds_per_tick :: UFRACT
  ticks_per_second :: REAL
  slow_rate_per_tick_cutoff :: REAL
  first_source_id :: uint32_t
  n_spike_sources :: uint32_t
  spike_source_seed :: mars_kiss64_seed_t

text \<open>
  The calls the program makes into code outside this file, with the arguments that
  matter. \<open>Recording_record_and_notify c ws\<close> carries the channel and the words of memory
  handed to the recording subsystem, as they are when the call is made.
\<close>

datatype call =
    Spin1_delay_us uint32_t
  | Out_spikes_reset
  | Spin1_send_mc_packet uint32_t
  | Spin1_malloc uint32_t
  | Sark_free
  | Recording_record_and_notify uint32_t "uint32_t list"
  | Recording_do_timestep_update uint32_t
  | Recording_finalise
  | Simulation_handle_pause_resume

text \<open>
  The ways a function of the program does not return normally: the software-error trap
  \<^verbatim>\<open>rt_error(RTE_SWERR)\<close>, a read through the null pointer \<^verbatim>\<open>spikes\<close>, and a wait for
  the end of a recording transfer that is never woken by it.
\<close>

datatype error = RTE_SWERR | NULL_DEREFERENCE | WAITS_FOREVER

text \<open>
  The file-level variables. \<open>spike_source_array\<close> and \<open>spikes\<close> are the objects the two
  pointers refer to (\<open>[]\<close> and \<open>None\<close> for \<^verbatim>\<open>NULL\<close>). \<open>sdram_parameters\<close> and
  \<open>sdram_spike_sources\<close> are the two parts of the \<^verbatim>\<open>POISSON_PARAMS\<close> region of shared
  memory: the parameter block and the source records that follow it. \<open>calls\<close> is the
  trace.
\<close>

record state =
  parameters :: parameters
  spike_source_array :: "spike_source_t list"
  time_between_spikes :: uint32_t
  expected_time :: uint32_t
  recording_flags :: uint32_t
  time :: uint32_t
  simulation_ticks :: uint32_t
  infinite_run :: uint32_t
  spikes :: "timed_out_spikes option"
  n_spike_buffers_allocated :: uint32_t
  n_spike_buffer_words :: uint32_t
  spike_buffer_size :: uint32_t
  recording_in_progress :: bool
  sdram_parameters :: parameters
  sdram_spike_sources :: "spike_source_t list"
  calls :: "call list"

text \<open>
  The library functions whose code is not part of the program and whose results the
  program computes with: the two samplers of \<^verbatim>\<open>random.h\<close> (each takes the seed and
  returns the seed it leaves), the exponential behind the macro \<^verbatim>\<open>EXP\<close>, and whether
  \<^verbatim>\<open>spin1_malloc\<close> finds a block of the size asked for.
\<close>

record library =
  exponential_dist_variate :: "mars_kiss64_seed_t \<Rightarrow> REAL \<times> mars_kiss64_seed_t"
  poisson_dist_variate_exp_minus_lambda ::
    "mars_kiss64_seed_t \<Rightarrow> UFRACT \<Rightarrow> uint32_t \<times> mars_kiss64_seed_t"
  EXP :: "REAL \<Rightarrow> REAL"
  spin1_malloc :: "uint32_t \<Rightarrow> bool"

definition TRUE :: uint32_t where
  "TRUE = 1"

definition call :: "call \<Rightarrow> state \<Rightarrow> state" where
  "call c st = st\<lparr>calls := calls st @ [c]\<rparr>"

definition set_seed :: "mars_kiss64_seed_t \<Rightarrow> state \<Rightarrow> state" where
  "set_seed sd st = st\<lparr>parameters := (parameters st)\<lparr>spike_source_seed := sd\<rparr>\<rparr>"

text \<open>An assignment through a pointer to element \<open>s\<close> of \<open>spike_source_array\<close>.\<close>

definition update_source :: "nat \<Rightarrow> (spike_source_t \<Rightarrow> spike_source_t) \<Rightarrow> state \<Rightarrow> state" where
  "update_source s f st =
     st\<lparr>spike_source_array := (spike_source_array st)[s := f (spike_source_array st ! s)]\<rparr>"

section \<open>The recording buffer\<close>

text \<open>
  Modelled from the spec: \<^verbatim>\<open>bit_field.h\<close> is not among the sources; the specification
  has a layer be a bit vector of \<open>\<lceil>n_sources / word_bits\<rceil>\<close> machine words, with one bit
  per source. \<^verbatim>\<open>bit_field_set\<close>, \<^verbatim>\<open>bit_field_test\<close> and \<^verbatim>\<open>clear_bit_field\<close> work on the array
  \<^verbatim>\<open>out_spikes[]\<close> and the word offset \<open>base\<close> that \<^verbatim>\<open>_out_spikes(n)\<close> points to
  (\<open>n_words\<close> is the value of \<^verbatim>\<open>n_spike_buffer_words\<close>):
  \<^verbatim>\<open>b[n >> 5] |= 1 << (n & 31)\<close>, and zeroing \<open>n\<close> words. The leading underscore of
  \<^verbatim>\<open>_out_spikes\<close>, \<^verbatim>\<open>_reset_spikes\<close>, \<^verbatim>\<open>_mark_spike\<close>, \<^verbatim>\<open>_record_spikes\<close> and
  \<^verbatim>\<open>_send_spike\<close> is dropped.
\<close>

definition out_spikes_offset :: "uint32_t \<Rightarrow> uint32_t \<Rightarrow> nat" where
  "out_spikes_offset n_words n = unat (n * n_words)"

definition bit_field_set :: "nat \<Rightarrow> uint32_t \<Rightarrow> uint32_t list \<Rightarrow> uint32_t list" where
  "bit_field_set base n b =
     b[base + unat (drop_bit 5 n) :=
         (b ! (base + unat (drop_bit 5 n))) OR push_bit (unat (n AND 0x1F)) 1]"

definition bit_field_test :: "nat \<Rightarrow> uint32_t \<Rightarrow> uint32_t list \<Rightarrow> bool" where
  "bit_field_test base n b =
     ((b ! (base + unat (drop_bit 5 n))) AND push_bit (unat (n AND 0x1F)) 1 \<noteq> 0)"

fun clear_bit_field :: "nat \<Rightarrow> nat \<Rightarrow> uint32_t list \<Rightarrow> uint32_t list" where
  "clear_bit_field base 0 b = b"
| "clear_bit_field base (Suc s) b = clear_bit_field base s (b[base + s := 0])"

text \<open>
  \<^verbatim>\<open>_reset_spikes\<close>; the loop runs \<open>n\<close> from \<^verbatim>\<open>n_spike_buffers_allocated\<close> down to 1.
  Its only call is guarded by \<^verbatim>\<open>spikes != NULL\<close>.
\<close>

fun reset_layers :: "uint32_t \<Rightarrow> nat \<Rightarrow> uint32_t list \<Rightarrow> uint32_t list" where
  "reset_layers n_words 0 b = b"
| "reset_layers n_words (Suc n) b =
     reset_layers n_words n
       (clear_bit_field (out_spikes_offset n_words (of_nat n)) (unat n_words) b)"

definition reset_spikes :: "state \<Rightarrow> state" where
  "reset_spikes st =
     (case spikes st of
        None \<Rightarrow> st
      | Some sp \<Rightarrow>
          st\<lparr>spikes := Some (sp\<lparr>n_buffers := 0,
                out_spikes :=
                  reset_layers (n_spike_buffer_words st)
                    (unat (n_spike_buffers_allocated st)) (out_spikes sp)\<rparr>)\<rparr>)"

text \<open>
  \<^verbatim>\<open>_mark_spike\<close>. The reallocation: \<open>new_size\<close> bytes are asked for, all
  \<open>new_size >> 2\<close> words are zeroed (two of them are the header), and the first
  \<open>old_size\<close> bytes of the old object, header included, are copied over them.
\<close>

definition grow_spikes :: "library \<Rightarrow> uint32_t \<Rightarrow> state \<Rightarrow> error + state" where
  "grow_spikes lib n_spikes st =
     (let new_size = 8 + n_spikes * spike_buffer_size st;
          st1 = call (Spin1_malloc new_size) st
      in if \<not> spin1_malloc lib new_size then Inl RTE_SWERR
         else
           let new_spikes = \<lparr>spikes_time = 0, n_buffers = 0,
                 out_spikes = replicate (unat (drop_bit 2 new_size) - 2) 0\<rparr>
           in (case spikes st1 of
                 None \<Rightarrow>
                   Inr (st1\<lparr>spikes := Some new_spikes, n_spike_buffers_allocated := n_spikes\<rparr>)
               | Some old \<Rightarrow>
                   let old_size = 8 + n_spike_buffers_allocated st1 * spike_buffer_size st1;
                       k = (unat old_size - 8) div 4;
                       copied = new_spikes\<lparr>spikes_time := spikes_time old,
                         n_buffers := n_buffers old,
                         out_spikes := take k (out_spikes old) @ drop k (out_spikes new_spikes)\<rparr>;
                       st2 = call Sark_free st1
                   in Inr (st2\<lparr>spikes := Some copied, n_spike_buffers_allocated := n_spikes\<rparr>)))"

fun mark_layers :: "uint32_t \<Rightarrow> nat \<Rightarrow> uint32_t \<Rightarrow> uint32_t list \<Rightarrow> uint32_t list" where
  "mark_layers n_words 0 neuron_id b = b"
| "mark_layers n_words (Suc n) neuron_id b =
     mark_layers n_words n neuron_id
       (bit_field_set (out_spikes_offset n_words (of_nat n)) neuron_id b)"

definition mark_spike :: "library \<Rightarrow> uint32_t \<Rightarrow> uint32_t \<Rightarrow> state \<Rightarrow> error + state" where
  "mark_spike lib neuron_id n_spikes st =
     (if recording_flags st > 0 then
        (case (if n_spike_buffers_allocated st < n_spikes then grow_spikes lib n_spikes st
               else Inr st) of
           Inl e \<Rightarrow> Inl e
         | Inr st1 \<Rightarrow>
             (case spikes st1 of
                None \<Rightarrow> Inl NULL_DEREFERENCE
              | Some sp \<Rightarrow>
                  let sp1 = (if n_buffers sp < n_spikes then sp\<lparr>n_buffers := n_spikes\<rparr> else sp);
                      sp2 = sp1\<lparr>out_spikes :=
                              mark_layers (n_spike_buffer_words st1) (unat n_spikes) neuron_id
                                (out_spikes sp1)\<rparr>
                  in Inr (st1\<lparr>spikes := Some sp2\<rparr>)))
      else Inr st)"

text \<open>
  \<^verbatim>\<open>recording_complete_callback\<close>, and the wait at the head of \<^verbatim>\<open>_record_spikes\<close>:
  \<^verbatim>\<open>while (recording_in_progress) spin1_wfi();\<close>. Only an interrupt changes the flag, so
  the loop is run against the list \<open>irqs\<close> that says, for each return of \<^verbatim>\<open>spin1_wfi\<close>,
  whether the callback ran; a list that ends with the flag still set is a wait that never
  ends.
\<close>

definition recording_complete_callback :: "state \<Rightarrow> state" where
  "recording_complete_callback st = st\<lparr>recording_in_progress := False\<rparr>"

fun wait_recording :: "bool list \<Rightarrow> state \<Rightarrow> error + state" where
  "wait_recording [] st = (if recording_in_progress st then Inl WAITS_FOREVER else Inr st)"
| "wait_recording (b # irqs) st =
     (if recording_in_progress st
      then wait_recording irqs (if b then recording_complete_callback st else st)
      else Inr st)"

text \<open>The words of the object \<^verbatim>\<open>spikes\<close> points to, in memory order.\<close>

definition spikes_words :: "timed_out_spikes \<Rightarrow> uint32_t list" where
  "spikes_words sp = spikes_time sp # n_buffers sp # out_spikes sp"

definition record_spikes :: "bool list \<Rightarrow> uint32_t \<Rightarrow> state \<Rightarrow> error + state" where
  "record_spikes irqs t st =
     (case wait_recording irqs st of
        Inl e \<Rightarrow> Inl e
      | Inr st1 \<Rightarrow>
          (case spikes st1 of
             None \<Rightarrow> Inr st1
           | Some sp \<Rightarrow>
               if n_buffers sp > 0 then
                 let st2 = st1\<lparr>recording_in_progress := True\<rparr>;
                     sp1 = sp\<lparr>spikes_time := t\<rparr>;
                     st3 = st2\<lparr>spikes := Some sp1\<rparr>;
                     size = 8 + n_buffers sp1 * spike_buffer_size st3;
                     st4 = call (Recording_record_and_notify 0
                                   (take (unat size div 4) (spikes_words sp1))) st3
                 in Inr (reset_spikes st4)
               else Inr st1))"

section \<open>Samplers, dispatch and the timer tick\<close>

definition slow_spike_source_get_time_to_spike :: "library \<Rightarrow> REAL \<Rightarrow> state \<Rightarrow> REAL \<times> state" where
  "slow_spike_source_get_time_to_spike lib mean_inter_spike_interval_in_ticks st =
     (let (v, sd) = exponential_dist_variate lib (spike_source_seed (parameters st))
      in (real_mul v mean_inter_spike_interval_in_ticks, set_seed sd st))"

definition fast_spike_source_get_num_spikes :: "library \<Rightarrow> UFRACT \<Rightarrow> state \<Rightarrow> uint32_t \<times> state" where
  "fast_spike_source_get_num_spikes lib eml st =
     (if eml = 0 then (0, st)
      else
        let (n, sd) = poisson_dist_variate_exp_minus_lambda lib
                        (spike_source_seed (parameters st)) eml
        in (n, set_seed sd st))"

text \<open>
  \<^verbatim>\<open>store_poisson_parameters\<close>: \<^verbatim>\<open>n_spike_sources\<close> records are copied over the records
  of the region, when there is at least one; the function returns \<^verbatim>\<open>true\<close>.
\<close>

definition store_poisson_parameters :: "state \<Rightarrow> bool \<times> state" where
  "store_poisson_parameters st =
     (let n = unat (n_spike_sources (parameters st))
      in (True,
          if n_spike_sources (parameters st) > 0
          then st\<lparr>sdram_spike_sources :=
                    take n (spike_source_array st) @ drop n (sdram_spike_sources st)\<rparr>
          else st))"

text \<open>
  \<^verbatim>\<open>_send_spike\<close>. Its two busy waits (for the hardware counter to reach
  \<open>expected_time\<close>, and for the fabric to take the packet) change no variable of the
  program; what remains is the update of \<open>expected_time\<close> and the packet sent.
\<close>

definition send_spike :: "uint32_t \<Rightarrow> state \<Rightarrow> state" where
  "send_spike spike_key st =
     call (Spin1_send_mc_packet spike_key)
       (st\<lparr>expected_time := expected_time st - time_between_spikes st\<rparr>)"

fun send_spikes :: "nat \<Rightarrow> uint32_t \<Rightarrow> state \<Rightarrow> state" where
  "send_spikes 0 spike_key st = st"
| "send_spikes (Suc n) spike_key st = send_spikes n spike_key (send_spike spike_key st)"

text \<open>
  The block of \<^verbatim>\<open>timer_callback\<close> that a slow source runs when its
  \<^verbatim>\<open>time_to_spike_ticks\<close> is not positive: mark one spike, send it if there is a key,
  and add a fresh interval.
\<close>

definition slow_spike :: "library \<Rightarrow> nat \<Rightarrow> state \<Rightarrow> error + state" where
  "slow_spike lib s st =
     (case mark_spike lib (of_nat s) 1 st of
        Inl e \<Rightarrow> Inl e
      | Inr st1 \<Rightarrow>
          let st2 = (if has_key (parameters st1)
                     then send_spike (key (parameters st1) OR of_nat s) st1
                     else st1);
              (d, st3) = slow_spike_source_get_time_to_spike lib
                           (mean_isi_ticks (spike_source_array st2 ! s)) st2
          in Inr (update_source s
                    (\<lambda>src. src\<lparr>time_to_spike_ticks := time_to_spike_ticks src + d\<rparr>) st3))"

text \<open>
  The body of the loop over the sources in \<^verbatim>\<open>timer_callback\<close>, for source \<open>s\<close>. Beside the
  state it returns the number of spikes the source generated on this tick: the local
  \<^verbatim>\<open>num_spikes\<close> of a fast source, 1 for a slow source that spiked, 0 otherwise.
\<close>

definition source_tick :: "library \<Rightarrow> nat \<Rightarrow> state \<Rightarrow> error + (uint32_t \<times> state)" where
  "source_tick lib s st =
     (let spike_source = spike_source_array st ! s
      in if is_fast_source spike_source then
           if time st \<ge> start_ticks spike_source \<and> time st < end_ticks spike_source then
             let (num_spikes, st1) =
                   fast_spike_source_get_num_spikes lib (exp_minus_lambda spike_source) st
             in if num_spikes > 0 then
                  (case mark_spike lib (of_nat s) num_spikes st1 of
                     Inl e \<Rightarrow> Inl e
                   | Inr st2 \<Rightarrow>
                       if has_key (parameters st2) then
                         let spike_key = key (parameters st2) OR of_nat s
                         in Inr (num_spikes, send_spikes (unat num_spikes) spike_key st2)
                       else Inr (num_spikes, st2))
                else Inr (0, st1)
           else Inr (0, st)
         else
           if time st \<ge> start_ticks spike_source \<and> time st < end_ticks spike_source
              \<and> mean_isi_ticks spike_source \<noteq> 0 then
             (case (if sint (time_to_spike_ticks spike_source) \<le> 0 then
                      (case slow_spike lib s st of
                         Inl e \<Rightarrow> Inl e
                       | Inr st1 \<Rightarrow> Inr (1, st1))
                    else Inr (0, st)) of
                Inl e \<Rightarrow> Inl e
              | Inr (n, st2) \<Rightarrow>
                  Inr (n, update_source s
                       (\<lambda>src. src\<lparr>time_to_spike_ticks := time_to_spike_ticks src - REAL_CONST_1\<rparr>)
                       st2))
           else Inr (0, st))"

fun sweep :: "library \<Rightarrow> nat list \<Rightarrow> state \<Rightarrow> error + (uint32_t list \<times> state)" where
  "sweep lib [] st = Inr ([], st)"
| "sweep lib (s # ss) st =
     (case source_tick lib s st of
        Inl e \<Rightarrow> Inl e
      | Inr (n, st1) \<Rightarrow>
          (case sweep lib ss st1 of
             Inl e \<Rightarrow> Inl e
           | Inr (ns, st2) \<Rightarrow> Inr (n # ns, st2)))"

text \<open>
  \<^verbatim>\<open>timer_callback\<close>. \<open>t1_count\<close> is the value read from the hardware counter
  \<^verbatim>\<open>tc[T1_COUNT]\<close> and \<open>irqs\<close> the interrupts seen while waiting for the recording
  transfer.
\<close>

definition timer_callback :: "library \<Rightarrow> uint32_t \<Rightarrow> bool list \<Rightarrow> state \<Rightarrow> error + state" where
  "timer_callback lib t1_count irqs st0 =
     (let st = st0\<lparr>time := time st0 + 1\<rparr>
      in if infinite_run st \<noteq> TRUE \<and> time st \<ge> simulation_ticks st then
           let (ok, st1) = store_poisson_parameters st
           in if \<not> ok then Inl RTE_SWERR
              else
                let st2 = call Simulation_handle_pause_resume st1;
                    st3 = (if recording_flags st2 > 0 then call Recording_finalise st2 else st2)
                in Inr (st3\<lparr>time := time st3 - 1\<rparr>)
         else
           let st1 = call (Spin1_delay_us (random_backoff_us (parameters st))) st;
               st2 = st1\<lparr>expected_time := t1_count - time_between_spikes st1\<rparr>;
               st3 = call Out_spikes_reset st2
           in (case sweep lib [0..<unat (n_spike_sources (parameters st3))] st3 of
                 Inl e \<Rightarrow> Inl e
               | Inr (ns, st4) \<Rightarrow>
                   (case (if recording_flags st4 > 0 then record_spikes irqs (time st4) st4
                          else Inr st4) of
                      Inl e \<Rightarrow> Inl e
                    | Inr st5 \<Rightarrow>
                        Inr (if recording_flags st5 > 0
                             then call (Recording_do_timestep_update (time st5)) st5
                             else st5))))"

section \<open>Rate updates\<close>

text \<open>
  \<^verbatim>\<open>set_spike_source_rate\<close>. The declaration \<^verbatim>\<open>REAL rate = 0.0;\<close> inside the block hides
  the parameter of the same name, as the inner \<open>let\<close> does here; the comparison with the
  cutoff reads \<^verbatim>\<open>rate\<close>, not \<^verbatim>\<open>rate_per_tick\<close>.
\<close>

definition set_spike_source_rate :: "library \<Rightarrow> uint32_t \<Rightarrow> REAL \<Rightarrow> state \<Rightarrow> state" where
  "set_spike_source_rate lib id' rate st =
     (if id' \<ge> first_source_id (parameters st)
         \<and> id' - first_source_id (parameters st) < n_spike_sources (parameters st) then
        let sub_id = id' - first_source_id (parameters st);
            rate = (0 :: REAL);
            rate_per_tick = real_mul_ufract rate (seconds_per_tick (parameters st))
        in if sint rate > sint (slow_rate_per_tick_cutoff (parameters st)) then
             update_source (unat sub_id)
               (\<lambda>src. src\<lparr>is_fast_source := True,
                          exp_minus_lambda := real_to_ufract (EXP lib (- rate_per_tick))\<rparr>) st
           else
             update_source (unat sub_id)
               (\<lambda>src. src\<lparr>is_fast_source := False,
                          mean_isi_ticks := real_mul rate (ticks_per_second (parameters st))\<rparr>) st
      else st)"

text \<open>The two callbacks that deliver rate updates.\<close>

definition multicast_packet_callback :: "library \<Rightarrow> uint32_t \<Rightarrow> uint32_t \<Rightarrow> state \<Rightarrow> state" where
  "multicast_packet_callback lib k payload st =
     set_spike_source_rate lib (k AND set_rate_neuron_id_mask (parameters st)) payload st"

text \<open>The keys of the packets sent, in order, read off the trace.\<close>

fun sent_key :: "call \<Rightarrow> uint32_t list" where
  "sent_key (Spin1_send_mc_packet k) = [k]"
| "sent_key _ = []"

definition sent :: "state \<Rightarrow> uint32_t list" where
  "sent st = concat (map sent_key (calls st))"

section \<open>The slow lane as the specification words it\<close>

text \<open>
  The specification's step for a slow source in its window: \<^emph>\<open>while\<close>
  \<open>time_to_spike_ticks \<le> 0\<close>, mark one spike, dispatch it if there is a key and add a
  fresh interval; then subtract one tick. The loop need not end (an interval drawn can
  be 0), so it runs on fuel and \<open>None\<close> is fuel exhausted. Each crossing is the block
  \<open>slow_spike\<close> of the program; only the repetition is the specification's.
\<close>

fun slow_crossings_spec ::
  "nat \<Rightarrow> library \<Rightarrow> nat \<Rightarrow> state \<Rightarrow> (error + (uint32_t \<times> state)) option" where
  "slow_crossings_spec 0 lib s st = None"
| "slow_crossings_spec (Suc fuel) lib s st =
     (if sint (time_to_spike_ticks (spike_source_array st ! s)) \<le> 0 then
        (case slow_spike lib s st of
           Inl e \<Rightarrow> Some (Inl e)
         | Inr st1 \<Rightarrow>
             (case slow_crossings_spec fuel lib s st1 of
                None \<Rightarrow> None
              | Some (Inl e) \<Rightarrow> Some (Inl e)
              | Some (Inr (n, st2)) \<Rightarrow> Some (Inr (n + 1, st2))))
      else Some (Inr (0, st)))"

definition slow_source_tick_spec ::
  "nat \<Rightarrow> library \<Rightarrow> nat \<Rightarrow> state \<Rightarrow> (error + (uint32_t \<times> state)) option" where
  "slow_source_tick_spec fuel lib s st =
     (case slow_crossings_spec fuel lib s st of
        None \<Rightarrow> None
      | Some (Inl e) \<Rightarrow> Some (Inl e)
      | Some (Inr (n, st1)) \<Rightarrow>
          Some (Inr (n, update_source s
            (\<lambda>src. src\<lparr>time_to_spike_ticks := time_to_spike_ticks src - REAL_CONST_1\<rparr>) st1)))"

section \<open>Recording and the rest of the program\<close>

text \<open>
  The calls made for the sake of recording: those into the recording subsystem and the
  allocator calls of \<^verbatim>\<open>_mark_spike\<close>. \<open>other_calls\<close> is the trace without them.
  \<open>recording_part\<close> is what the program keeps for recording, \<open>without_recording\<close> is the
  state with all of it cleared and recording switched off.
\<close>

fun is_recording_call :: "call \<Rightarrow> bool" where
  "is_recording_call (Spin1_malloc n) = True"
| "is_recording_call Sark_free = True"
| "is_recording_call (Recording_record_and_notify c ws) = True"
| "is_recording_call (Recording_do_timestep_update t) = True"
| "is_recording_call Recording_finalise = True"
| "is_recording_call _ = False"

definition other_calls :: "state \<Rightarrow> call list" where
  "other_calls st = filter (\<lambda>c. \<not> is_recording_call c) (calls st)"

definition without_recording :: "state \<Rightarrow> state" where
  "without_recording st =
     st\<lparr>recording_flags := 0, spikes := None, n_spike_buffers_allocated := 0,
        recording_in_progress := False, calls := other_calls st\<rparr>"

definition recording_part ::
  "state \<Rightarrow> uint32_t \<times> timed_out_spikes option \<times> uint32_t \<times> bool \<times> call list" where
  "recording_part st =
     (recording_flags st, spikes st, n_spike_buffers_allocated st, recording_in_progress st,
      filter is_recording_call (calls st))"

section \<open>Sample data\<close>

text \<open>
  A small configuration on which the functions are evaluated: three sources with global
  identifiers 10, 11 and 12, a tick of 1 ms (\<open>seconds_per_tick\<close> is 0.001,
  \<open>ticks_per_second\<close> is 1000.0), a cutoff of 0.25 spikes per tick and recording switched
  on. Source 0 is slow with a mean interval of one tick and is three ticks overdue,
  source 1 is fast, source 2 is slow and silent. The sample samplers read their result
  off the first seed word and rotate the seed.
\<close>

definition example_library :: library where
  "example_library =
     \<lparr>exponential_dist_variate = (\<lambda>sd. (hd sd, tl sd @ [hd sd])),
      poisson_dist_variate_exp_minus_lambda = (\<lambda>sd p. (hd sd AND 3, tl sd @ [hd sd])),
      EXP = (\<lambda>x. REAL_CONST_1 + x),
      spin1_malloc = (\<lambda>n. n \<le> 0x10000)\<rparr>"

definition example_parameters :: parameters where
  "example_parameters =
     \<lparr>has_key = True, key = 0x1000, set_rate_neuron_id_mask = 0xFF, random_backoff_us = 5,
      p_time_between_spikes = 10, seconds_per_tick = 0x00418937,
      ticks_per_second = 0x01F40000, slow_rate_per_tick_cutoff = 0x2000,
      first_source_id = 10, n_spike_sources = 3,
      spike_source_seed = [0x8000, 0x8002, 0x8000, 0x8000]\<rparr>"

definition example_sources :: "spike_source_t list" where
  "example_sources =
     [\<lparr>start_ticks = 0, end_ticks = 100, is_fast_source = False, exp_minus_lambda = 0,
       mean_isi_ticks = 0x8000, time_to_spike_ticks = 0xFFFE8000\<rparr>,
      \<lparr>start_ticks = 0, end_ticks = 100, is_fast_source = True, exp_minus_lambda = 0x5E2D58D8,
       mean_isi_ticks = 0, time_to_spike_ticks = 0\<rparr>,
      \<lparr>start_ticks = 0, end_ticks = 100, is_fast_source = False, exp_minus_lambda = 0,
       mean_isi_ticks = 0, time_to_spike_ticks = 0\<rparr>]"

definition example_state :: state where
  "example_state =
     \<lparr>parameters = example_parameters, spike_source_array = example_sources,
      time_between_spikes = 0, expected_time = 0, recording_flags = 1, time = 4,
      simulation_ticks = 1000, infinite_run = 0, spikes = None,
      n_spike_buffers_allocated = 0, n_spike_buffer_words = 1, spike_buffer_size = 4,
      recording_in_progress = False, sdram_parameters = example_parameters,
      sdram_spike_sources = example_sources, calls = []\<rparr>"

section \<open>Well-formed recording buffers\<close>

text \<open>
  What \<^verbatim>\<open>initialize\<close> and the allocations of \<^verbatim>\<open>_mark_spike\<close> establish: a layer is
  \<open>n_spike_buffer_words\<close> words of four bytes, the buffer holds
  \<open>n_spike_buffers_allocated\<close> layers (none while \<^verbatim>\<open>spikes\<close> is \<^verbatim>\<open>NULL\<close>), its size in
  bytes fits 32 bits, and at most the allocated layers are in use.
\<close>

definition buffer_ok :: "state \<Rightarrow> bool" where
  "buffer_ok st \<longleftrightarrow>
     unat (spike_buffer_size st) = 4 * unat (n_spike_buffer_words st)
     \<and> 8 + 4 * (unat (n_spike_buffers_allocated st) * unat (n_spike_buffer_words st)) < 2 ^ 32
     \<and> (case spikes st of
          None \<Rightarrow> n_spike_buffers_allocated st = 0
        | Some sp \<Rightarrow>
            length (out_spikes sp)
              = unat (n_spike_buffers_allocated st) * unat (n_spike_buffer_words st)
            \<and> n_buffers sp \<le> n_spike_buffers_allocated st)"

text \<open>The layers from \<open>n_buffers\<close> on hold zeros only.\<close>

definition upper_layers_zero :: "state \<Rightarrow> bool" where
  "upper_layers_zero st \<longleftrightarrow>
     (case spikes st of
        None \<Rightarrow> True
      | Some sp \<Rightarrow>
          list_all (\<lambda>x. x = 0)
            (drop (unat (n_buffers sp) * unat (n_spike_buffer_words st)) (out_spikes sp)))"

text \<open>A buffer as the flush is handed it when a transfer is still in progress.\<close>

definition example_recorded :: state where
  "example_recorded =
     \<lparr>parameters = example_parameters, spike_source_array = example_sources,
      time_between_spikes = 0, expected_time = 0, recording_flags = 1, time = 4,
      simulation_ticks = 1000, infinite_run = 0,
      spikes = Some \<lparr>spikes_time = 0, n_buffers = 2, out_spikes = [3, 2, 0]\<rparr>,
      n_spike_buffers_allocated = 3, n_spike_buffer_words = 1, spike_buffer_size = 4,
      recording_in_progress = True, sdram_parameters = example_parameters,
      sdram_spike_sources = example_sources, calls = []\<rparr>"

text \<open>
  Bit \<open>s\<close> of layer \<open>k\<close> of the recording buffer, read with \<^verbatim>\<open>bit_field_test\<close> through
  \<^verbatim>\<open>_out_spikes(k)\<close>; a layer that is not allocated has no bit set.
\<close>

definition layer_bit :: "state \<Rightarrow> nat \<Rightarrow> uint32_t \<Rightarrow> bool" where
  "layer_bit st k s \<longleftrightarrow>
     (case spikes st of
        None \<Rightarrow> False
      | Some sp \<Rightarrow>
          k < unat (n_spike_buffers_allocated st)
          \<and> bit_field_test (out_spikes_offset (n_spike_buffer_words st) (of_nat k)) s
               (out_spikes sp))"

text \<open>
  The contents, layer count and time stamp of the buffer, with the values of an empty
  buffer while \<^verbatim>\<open>spikes\<close> is \<^verbatim>\<open>NULL\<close>.
\<close>

definition old_out :: "state \<Rightarrow> uint32_t list" where
  "old_out st = (case spikes st of None \<Rightarrow> [] | Some sp \<Rightarrow> out_spikes sp)"

definition old_n_buffers :: "state \<Rightarrow> uint32_t" where
  "old_n_buffers st = (case spikes st of None \<Rightarrow> 0 | Some sp \<Rightarrow> n_buffers sp)"

definition old_time :: "state \<Rightarrow> uint32_t" where
  "old_time st = (case spikes st of None \<Rightarrow> 0 | Some sp \<Rightarrow> spikes_time sp)"

text \<open>
  The variables of the recording buffer, and the buffer as \<^verbatim>\<open>_reset_spikes\<close> leaves it:
  no layer in use and every word zero.
\<close>

definition buffer_part ::
  "state \<Rightarrow> timed_out_spikes option \<times> uint32_t \<times> uint32_t \<times> uint32_t \<times> uint32_t" where
  "buffer_part st =
     (spikes st, n_spike_buffers_allocated st, n_spike_buffer_words st, spike_buffer_size st,
      recording_flags st)"

definition buffer_clean :: "state \<Rightarrow> bool" where
  "buffer_clean st \<longleftrightarrow>
     (case spikes st of
        None \<Rightarrow> True
      | Some sp \<Rightarrow> n_buffers sp = 0 \<and> list_all (\<lambda>x. x = 0) (out_spikes sp))"

section \<open>Basic facts\<close>

lemma sent_call [simp]:
  "sent (call c st) = sent st @ sent_key c"
  by (simp add: sent_def call_def)

lemma update_source_parameters [simp]:
  "parameters (update_source s f st) = parameters st"
  by (simp add: update_source_def)

lemma update_source_twice:
  assumes "\<And>x. f (f x) = f x"
  shows "update_source s f (update_source s f st) = update_source s f st"
  by (cases "s < length (spike_source_array st)")
     (simp_all add: update_source_def assms list_update_beyond)

text \<open>
  What \<^verbatim>\<open>_mark_spike\<close> can change: the recording buffer, the number of layers allocated
  and the trace, to which it adds allocator calls only, so no packet.
\<close>

lemma grow_spikes_calls:
  assumes "grow_spikes lib n st = Inr st'"
  shows "\<exists>sp cs. st' = st\<lparr>spikes := Some sp, n_spike_buffers_allocated := n,
                 calls := calls st @ cs\<rparr> \<and> list_all is_recording_call cs"
proof -
  define cs where "cs = Spin1_malloc (8 + n * spike_buffer_size st)
                        # (case spikes st of None \<Rightarrow> [] | Some old \<Rightarrow> [Sark_free])"
  from assms obtain sp where "spikes st' = Some sp"
    by (auto simp: grow_spikes_def Let_def call_def split: if_splits option.splits)
  moreover from assms have "st' = st\<lparr>spikes := spikes st', n_spike_buffers_allocated := n,
                 calls := calls st @ cs\<rparr>"
    by (auto simp: grow_spikes_def Let_def call_def cs_def split: if_splits option.splits)
  moreover have "list_all is_recording_call cs"
    by (simp add: cs_def split: option.splits)
  ultimately show ?thesis by metis
qed

lemma mark_spike_calls:
  assumes "mark_spike lib i n st = Inr st'"
  shows "\<exists>sp a cs. st' = st\<lparr>spikes := sp, n_spike_buffers_allocated := a,
                 calls := calls st @ cs\<rparr> \<and> list_all is_recording_call cs"
proof (cases "recording_flags st > 0")
  case False
  with assms have "st' = st" by (simp add: mark_spike_def)
  then have "st' = st\<lparr>spikes := spikes st,
                 n_spike_buffers_allocated := n_spike_buffers_allocated st,
                 calls := calls st @ []\<rparr> \<and> list_all is_recording_call []" by simp
  then show ?thesis by blast
next
  case True
  show ?thesis
  proof (cases "n_spike_buffers_allocated st < n")
    case g: True
    from assms True g obtain st1 where 1: "grow_spikes lib n st = Inr st1"
      by (auto simp: mark_spike_def split: sum.splits)
    from grow_spikes_calls [OF 1] obtain sp cs where
      2: "st1 = st\<lparr>spikes := Some sp, n_spike_buffers_allocated := n, calls := calls st @ cs\<rparr>"
      and 3: "list_all is_recording_call cs" by blast
    from assms True g 1 have "\<exists>sp'. st' = st1\<lparr>spikes := sp'\<rparr>"
      by (auto simp: mark_spike_def Let_def split: option.splits if_splits)
    then obtain sp' where "st' = st1\<lparr>spikes := sp'\<rparr>" ..
    with 2 have "st' = st\<lparr>spikes := sp', n_spike_buffers_allocated := n,
                   calls := calls st @ cs\<rparr>"
      by simp
    with 3 show ?thesis by blast
  next
    case g: False
    with assms True have "\<exists>sp'. st' = st\<lparr>spikes := sp'\<rparr>"
      by (auto simp: mark_spike_def Let_def split: option.splits if_splits)
    then obtain sp' where "st' = st\<lparr>spikes := sp'\<rparr>" ..
    then have "st' = st\<lparr>spikes := sp',
                 n_spike_buffers_allocated := n_spike_buffers_allocated st,
                 calls := calls st @ []\<rparr> \<and> list_all is_recording_call []" by simp
    then show ?thesis by blast
  qed
qed

lemma recording_calls_not_sent:
  "list_all is_recording_call cs \<Longrightarrow> concat (map sent_key cs) = []"
proof (induction cs)
  case Nil
  then show ?case by simp
next
  case (Cons c cs)
  then show ?case by (cases c) simp_all
qed

lemma recording_calls_filtered:
  "list_all is_recording_call cs \<Longrightarrow> filter (\<lambda>c. \<not> is_recording_call c) cs = []"
  by (induction cs) simp_all

lemma mark_spike_frame:
  assumes "mark_spike lib i n st = Inr st'"
  shows "\<exists>sp a cs. st' = st\<lparr>spikes := sp, n_spike_buffers_allocated := a,
                 calls := calls st @ cs\<rparr> \<and> concat (map sent_key cs) = []"
  using mark_spike_calls [OF assms] recording_calls_not_sent by blast

text \<open>Resetting layers, and the wait for the transfer.\<close>

lemma length_clear_bit_field [simp]: "length (clear_bit_field base n b) = length b"
  by (induction n arbitrary: b) simp_all

lemma nth_clear_bit_field:
  "i < length b \<Longrightarrow>
   clear_bit_field base n b ! i = (if base \<le> i \<and> i < base + n then 0 else b ! i)"
  by (induction n arbitrary: b) (auto simp: nth_list_update)

lemma length_reset_layers [simp]: "length (reset_layers w n b) = length b"
  by (induction n arbitrary: b) simp_all

lemma unat_layer_offset:
  fixes w :: uint32_t
  assumes "k * unat w < 2 ^ 32"
  shows "out_spikes_offset w (of_nat k) = k * unat w"
proof (cases "w = 0")
  case True
  then show ?thesis by (simp add: out_spikes_offset_def)
next
  case False
  then have "0 < unat w" by (simp add: unat_gt_0)
  with assms have k: "k < 2 ^ 32"
    by (metis (no_types, lifting) le_less_trans mult.right_neutral mult_le_mono2 Suc_leI One_nat_def)
  then have "unat (of_nat k :: uint32_t) = k" by (simp add: unat_of_nat)
  with assms show ?thesis
    by (simp add: out_spikes_offset_def unat_mult_lem [THEN iffD1])
qed

lemma nth_reset_layers:
  assumes "i < length b" and "n * unat w < 2 ^ 32"
  shows "reset_layers w n b ! i = (if i < n * unat w then 0 else b ! i)"
  using assms
proof (induction n arbitrary: b)
  case 0
  then show ?case by simp
next
  case (Suc n)
  from Suc.prems have n: "n * unat w < 2 ^ 32" by simp
  have o: "out_spikes_offset w (of_nat n) = n * unat w" by (rule unat_layer_offset [OF n])
  show ?case using Suc.IH [OF _ n] Suc.prems(1)
    by (auto simp: o nth_clear_bit_field)
qed


lemma reset_layers_first:
  assumes "m * unat w < 2 ^ 32"
    and "list_all (\<lambda>x. x = 0) (drop (m * unat w) b)"
  shows "reset_layers w m b = replicate (length b) 0"
proof (rule nth_equalityI)
  show "length (reset_layers w m b) = length (replicate (length b) 0)" by simp
next
  fix i assume "i < length (reset_layers w m b)"
  then have i: "i < length b" by simp
  have "b ! i = 0" if "\<not> i < m * unat w"
  proof -
    from that i have "b ! i = drop (m * unat w) b ! (i - m * unat w)" by simp
    moreover from that i have "i - m * unat w < length (drop (m * unat w) b)" by simp
    ultimately show ?thesis using assms(2) by (simp add: list_all_length)
  qed
  then have "(if i < m * unat w then 0 else b ! i) = 0" by simp
  with nth_reset_layers [OF i assms(1)] have "reset_layers w m b ! i = 0" by simp
  with i show "reset_layers w m b ! i = replicate (length b) 0 ! i" by simp
qed

lemma reset_layers_all:
  assumes "length b = n * unat w" and "n * unat w < 2 ^ 32"
  shows "reset_layers w n b = replicate (length b) 0"
proof -
  from assms(1) have "drop (n * unat w) b = []" by simp
  then have "list_all (\<lambda>x. x = 0) (drop (n * unat w) b)" by simp
  with assms(2) show ?thesis by (rule reset_layers_first)
qed

lemma wait_recording_Inr:
  "wait_recording irqs st = Inr st' \<Longrightarrow> st' = st\<lparr>recording_in_progress := False\<rparr>"
proof (induction irqs arbitrary: st)
  case Nil
  then show ?case by (simp split: if_splits)
next
  case (Cons b irqs)
  show ?case
  proof (cases "recording_in_progress st")
    case False
    with Cons.prems show ?thesis by simp
  next
    case True
    with Cons.prems have
      "wait_recording irqs (if b then recording_complete_callback st else st) = Inr st'"
      by simp
    from Cons.IH [OF this] show ?thesis
      by (simp add: recording_complete_callback_def split: if_splits)
  qed
qed

lemma wait_recording_returns:
  "recording_in_progress st \<longrightarrow> True \<in> set irqs \<Longrightarrow>
   wait_recording irqs st = Inr (st\<lparr>recording_in_progress := False\<rparr>)"
proof (induction irqs arbitrary: st)
  case Nil
  then show ?case by simp
next
  case (Cons b irqs)
  show ?case
  proof (cases "recording_in_progress st")
    case False
    then show ?thesis by simp
  next
    case True
    show ?thesis
    proof (cases b)
      case b: True
      have "wait_recording irqs (recording_complete_callback st)
            = Inr (recording_complete_callback st)"
        by (cases irqs) (simp_all add: recording_complete_callback_def)
      with True b show ?thesis by (simp add: recording_complete_callback_def)
    next
      case b: False
      with True Cons.prems have "True \<in> set irqs" by simp
      with Cons.IH [of st] True b show ?thesis by simp
    qed
  qed
qed

lemma unat_buffer_bytes:
  fixes n sz :: uint32_t
  assumes "8 + unat n * unat sz < 2 ^ 32"
  shows "unat (8 + n * sz) = 8 + unat n * unat sz"
proof -
  from assms have "unat n * unat sz < 2 ^ LENGTH(32)" by simp
  then have m: "unat (n * sz) = unat n * unat sz" by (simp only: unat_mult_lem)
  from assms m have "unat (8 :: uint32_t) + unat (n * sz) < 2 ^ LENGTH(32)" by simp
  then have "unat (8 + n * sz) = unat (8 :: uint32_t) + unat (n * sz)"
    by (simp only: unat_add_lem)
  with m show ?thesis by simp
qed

section \<open>Rate updates: results\<close>

lemma set_rate_guard:
  "(id' \<ge> (f::uint32_t) \<and> id' - f < n) \<longleftrightarrow> (unat f \<le> unat id' \<and> unat id' < unat f + unat n)"
  by (auto simp: word_le_nat_alt word_less_nat_alt unat_sub)

text \<open>
  The rate handed to \<^verbatim>\<open>set_spike_source_rate\<close> has no influence on what it does: the
  value it computes with is the 0.0 of the inner declaration.
\<close>

lemma set_rate_ignores_rate:
  "set_spike_source_rate lib id' rate st = set_spike_source_rate lib id' 0 st"
  by (simp add: set_spike_source_rate_def)

text \<open>
  C1. The claim: after an in-range \<^verbatim>\<open>set_rate(id, rate_hz)\<close> the source is fast, with
  \<open>exp_minus_lambda = exp(- rate_hz * seconds_per_tick)\<close>, exactly when
  \<open>rate_hz * seconds_per_tick\<close> exceeds the cutoff, and the derived quantities come from
  the incoming rate. The code at a rate of 1000 Hz for source 11 of the sample (a fast
  source; 1000 Hz is 0.99997 spikes per tick, above the cutoff of 0.25): the source is
  made slow with a mean interval of 0, that is silent, and its \<open>exp_minus_lambda\<close> is left
  as it was.
\<close>

theorem set_rate_1000Hz_makes_source_silent:
  "sint (real_mul_ufract 0x01F40000 (seconds_per_tick example_parameters))
     > sint (slow_rate_per_tick_cutoff example_parameters)
   \<and> spike_source_array (set_spike_source_rate example_library 11 0x01F40000 example_state) ! 1
     = \<lparr>start_ticks = 0, end_ticks = 100, is_fast_source = False,
        exp_minus_lambda = 0x5E2D58D8, mean_isi_ticks = 0, time_to_spike_ticks = 0\<rparr>"
  by (simp add: set_spike_source_rate_def example_state_def example_parameters_def
      example_sources_def update_source_def real_mul_def real_mul_ufract_def)

text \<open>
  C3. The claim: after a \<^verbatim>\<open>set_rate\<close> with a nonzero rate that leaves an in-range source
  slow, \<open>mean_isi_ticks\<close> is \<open>1 / (rate_hz * seconds_per_tick)\<close>. The code at a rate of
  1 Hz for source 10 of the sample (0.001 spikes per tick, a mean interval of 1000 ticks,
  which is \<open>0x01F40000\<close>): the source is slow and the interval stored is 0.
\<close>

theorem set_rate_1Hz_stores_zero_interval:
  "is_fast_source
     (spike_source_array (set_spike_source_rate example_library 10 0x8000 example_state) ! 0)
     = False
   \<and> mean_isi_ticks
     (spike_source_array (set_spike_source_rate example_library 10 0x8000 example_state) ! 0)
     = 0"
  by (simp add: set_spike_source_rate_def example_state_def example_parameters_def
      example_sources_def update_source_def real_mul_def real_mul_ufract_def)

text \<open>
  C8. A call of \<^verbatim>\<open>set_rate\<close> whose identifier lies outside
  \<open>[first_source_id, first_source_id + n_spike_sources)\<close> returns the state it was given:
  no source record and no other variable changes, and the function has no error to
  signal.
\<close>

theorem set_rate_outside_window_is_noop:
  assumes "unat id' < unat (first_source_id (parameters st))
           \<or> unat (first_source_id (parameters st)) + unat (n_spike_sources (parameters st))
               \<le> unat id'"
  shows "set_spike_source_rate lib id' rate st = st"
proof -
  have "\<not> (id' \<ge> first_source_id (parameters st)
         \<and> id' - first_source_id (parameters st) < n_spike_sources (parameters st))"
    using assms unfolding set_rate_guard by linarith
  then show ?thesis unfolding set_spike_source_rate_def by (rule if_not_P)
qed

theorem set_rate_outside_window_is_noop_witness:
  "set_spike_source_rate example_library 13 0x8000 example_state = example_state
   \<and> set_spike_source_rate example_library 9 0x8000 example_state = example_state"
  using set_rate_outside_window_is_noop [where id' = 13 and st = example_state
      and lib = example_library and rate = "0x8000"]
    set_rate_outside_window_is_noop [where id' = 9 and st = example_state
      and lib = example_library and rate = "0x8000"]
  by (simp add: example_state_def example_parameters_def)

text \<open>
  C9. Applying \<^verbatim>\<open>set_rate(id, r)\<close> twice in succession leaves the same state as applying
  it once.
\<close>

theorem set_rate_twice:
  "set_spike_source_rate lib id' rate (set_spike_source_rate lib id' rate st)
   = set_spike_source_rate lib id' rate st"
  by (simp add: set_spike_source_rate_def Let_def update_source_twice)

section \<open>One source on one tick\<close>

text \<open>What the block \<open>slow_spike\<close> does when it returns.\<close>

lemma slow_spike_effect:
  assumes "slow_spike lib s st = Inr st'" and "s < length (spike_source_array st)"
  shows "\<exists>st1. mark_spike lib (of_nat s) 1 st = Inr st1 \<and> spikes st' = spikes st1
          \<and> n_spike_buffers_allocated st' = n_spike_buffers_allocated st1"
    and "sent st' = sent st @ (if has_key (parameters st) then [key (parameters st) OR of_nat s] else [])"
    and "spike_source_array st' = (spike_source_array st)[s := (spike_source_array st ! s)
           \<lparr>time_to_spike_ticks := time_to_spike_ticks (spike_source_array st ! s)
              + real_mul (fst (exponential_dist_variate lib (spike_source_seed (parameters st))))
                  (mean_isi_ticks (spike_source_array st ! s))\<rparr>]"
    and "parameters st' = (parameters st)\<lparr>spike_source_seed :=
           snd (exponential_dist_variate lib (spike_source_seed (parameters st)))\<rparr>"
proof -
  from assms(1) obtain st1 where m: "mark_spike lib (of_nat s) 1 st = Inr st1"
    by (auto simp: slow_spike_def split: sum.splits)
  from mark_spike_frame [OF m] obtain sp a cs where
    f: "st1 = st\<lparr>spikes := sp, n_spike_buffers_allocated := a, calls := calls st @ cs\<rparr>"
    and c: "concat (map sent_key cs) = []" by blast
  define v where "v = exponential_dist_variate lib (spike_source_seed (parameters st))"
  from assms(1) m have e: "st' = st1\<lparr>
      expected_time := (if has_key (parameters st1)
                        then expected_time st1 - time_between_spikes st1 else expected_time st1),
      calls := calls st1 @ (if has_key (parameters st1)
                            then [Spin1_send_mc_packet (key (parameters st1) OR of_nat s)] else []),
      parameters := (parameters st1)\<lparr>spike_source_seed := snd v\<rparr>,
      spike_source_array := (spike_source_array st1)[s := (spike_source_array st1 ! s)
           \<lparr>time_to_spike_ticks := time_to_spike_ticks (spike_source_array st1 ! s)
              + real_mul (fst v) (mean_isi_ticks (spike_source_array st1 ! s))\<rparr>]\<rparr>"
    unfolding v_def f
    by (auto simp: slow_spike_def Let_def split_beta send_spike_def call_def
        slow_spike_source_get_time_to_spike_def set_seed_def update_source_def)
  show "\<exists>st1. mark_spike lib (of_nat s) 1 st = Inr st1 \<and> spikes st' = spikes st1
          \<and> n_spike_buffers_allocated st' = n_spike_buffers_allocated st1"
    using m e by simp
  show "sent st' = sent st @ (if has_key (parameters st) then [key (parameters st) OR of_nat s] else [])"
    using e f c by (simp add: sent_def)
  show "spike_source_array st' = (spike_source_array st)[s := (spike_source_array st ! s)
           \<lparr>time_to_spike_ticks := time_to_spike_ticks (spike_source_array st ! s)
              + real_mul (fst (exponential_dist_variate lib (spike_source_seed (parameters st))))
                  (mean_isi_ticks (spike_source_array st ! s))\<rparr>]"
    using e f by (simp add: v_def)
  show "parameters st' = (parameters st)\<lparr>spike_source_seed :=
           snd (exponential_dist_variate lib (spike_source_seed (parameters st)))\<rparr>"
    using e f by (simp add: v_def)
qed

text \<open>
  C2. The claim: a slow source in its window with a nonzero mean interval marks and
  dispatches one spike per crossing for as long as \<open>time_to_spike_ticks \<le> 0\<close>, so that
  it can emit several spikes in one tick, and is then decremented once. On source 0 of
  the sample, three ticks overdue with intervals of about one tick drawn, the
  specification's loop gives three spikes on the tick; the program tests
  \<open>time_to_spike_ticks \<le> 0\<close> with an \<^verbatim>\<open>if\<close>, gives one spike and leaves the source three
  ticks overdue.
\<close>

theorem slow_source_counterexample:
  "(case source_tick example_library 0 example_state of
      Inr (n, st') \<Rightarrow> n = 1 \<and> sent st' = [0x1000]
         \<and> time_to_spike_ticks (spike_source_array st' ! 0) = 0xFFFE8000
    | Inl e \<Rightarrow> False)
   \<and> (case slow_source_tick_spec 4 example_library 0 example_state of
      Some (Inr (n, st')) \<Rightarrow> n = 3 \<and> sent st' = [0x1000, 0x1000, 0x1000]
         \<and> time_to_spike_ticks (spike_source_array st' ! 0) = 0xFFFF8002
    | _ \<Rightarrow> False)"
  by code_simp

text \<open>
  C2, as the program has it: the test is made once per tick. A slow source \<open>s\<close> in its
  window with a nonzero mean interval generates one spike if
  \<open>time_to_spike_ticks \<le> 0\<close> and none otherwise, whatever the counter is after the draw;
  with the spike go one \<^verbatim>\<open>_mark_spike(s, 1)\<close>, one packet \<open>key | s\<close> if there is a key,
  and one fresh interval added to the counter; then the counter is decremented by 1.0,
  exactly once.
\<close>

theorem slow_source_tick_single_crossing:
  assumes src: "src = spike_source_array st ! s"
    and len: "s < length (spike_source_array st)"
    and slow: "\<not> is_fast_source src"
    and win: "start_ticks src \<le> time st \<and> time st < end_ticks src"
    and isi: "mean_isi_ticks src \<noteq> 0"
    and ret: "source_tick lib s st = Inr (n, st')"
  shows "n = (if sint (time_to_spike_ticks src) \<le> 0 then 1 else 0)
    \<and> sent st' = sent st @ (if sint (time_to_spike_ticks src) \<le> 0 \<and> has_key (parameters st)
                            then [key (parameters st) OR of_nat s] else [])
    \<and> (if sint (time_to_spike_ticks src) \<le> 0
       then \<exists>st1. mark_spike lib (of_nat s) 1 st = Inr st1 \<and> spikes st' = spikes st1
       else spikes st' = spikes st)
    \<and> time_to_spike_ticks (spike_source_array st' ! s)
       = (if sint (time_to_spike_ticks src) \<le> 0
          then time_to_spike_ticks src
               + real_mul (fst (exponential_dist_variate lib (spike_source_seed (parameters st))))
                   (mean_isi_ticks src)
          else time_to_spike_ticks src) - REAL_CONST_1"
proof (cases "sint (time_to_spike_ticks src) \<le> 0")
  case True
  from ret src slow win isi True obtain st1 where
    1: "slow_spike lib s st = Inr st1" and n: "n = 1"
    and 2: "st' = update_source s
          (\<lambda>src. src\<lparr>time_to_spike_ticks := time_to_spike_ticks src - REAL_CONST_1\<rparr>) st1"
    by (auto simp: source_tick_def Let_def split: sum.splits)
  note e = slow_spike_effect [OF 1 len]
  from e(1) 2 have "\<exists>st1. mark_spike lib (of_nat s) 1 st = Inr st1 \<and> spikes st' = spikes st1"
    by (auto simp: update_source_def)
  moreover from e(2) 2 True have "sent st' = sent st @ [key (parameters st) OR of_nat s]"
    if "has_key (parameters st)" using that by (simp add: update_source_def sent_def)
  moreover from e(2) 2 True have "sent st' = sent st"
    if "\<not> has_key (parameters st)" using that by (simp add: update_source_def sent_def)
  moreover from e(3) 2 len src have "time_to_spike_ticks (spike_source_array st' ! s)
       = time_to_spike_ticks src
               + real_mul (fst (exponential_dist_variate lib (spike_source_seed (parameters st))))
                   (mean_isi_ticks src) - REAL_CONST_1"
    by (simp add: update_source_def)
  ultimately show ?thesis using True n by auto
next
  case False
  from ret src slow win isi False have n: "n = 0"
    and 2: "st' = update_source s
          (\<lambda>src. src\<lparr>time_to_spike_ticks := time_to_spike_ticks src - REAL_CONST_1\<rparr>) st"
    by (auto simp: source_tick_def Let_def split: sum.splits)
  from 2 len src show ?thesis using False n
    by (simp add: update_source_def sent_def)
qed

theorem slow_source_tick_single_crossing_witness:
  "\<exists>n st'. source_tick example_library 0 example_state = Inr (n, st')
     \<and> n = 1 \<and> sent st' = [0x1000]
     \<and> (\<exists>st1. mark_spike example_library 0 1 example_state = Inr st1 \<and> spikes st' = spikes st1)
     \<and> time_to_spike_ticks (spike_source_array st' ! 0) = 0xFFFE8000"
proof -
  have "\<not> isl (source_tick example_library 0 example_state)" by code_simp
  then obtain n st' where r: "source_tick example_library 0 example_state = Inr (n, st')"
    by (cases "source_tick example_library 0 example_state") auto
  have h: "example_sources ! 0 = spike_source_array example_state ! 0"
    "0 < length (spike_source_array example_state)"
    "\<not> is_fast_source (example_sources ! 0)"
    "start_ticks (example_sources ! 0) \<le> time example_state
     \<and> time example_state < end_ticks (example_sources ! 0)"
    "mean_isi_ticks (example_sources ! 0) \<noteq> 0"
    by (simp_all add: example_state_def example_sources_def)
  from slow_source_tick_single_crossing [OF h r] r show ?thesis
    by (simp add: example_state_def example_sources_def example_parameters_def
        example_library_def sent_def real_mul_def REAL_CONST_1_def)
qed

text \<open>
  C5. A source outside its window \<open>[start_ticks, end_ticks)\<close>, fast or slow, and a slow
  source with \<open>mean_isi_ticks = 0\<close> on any tick, generates no spike and leaves the whole
  state as it was: nothing is marked, nothing is sent, no random number is drawn and
  \<open>time_to_spike_ticks\<close> is not decremented.
\<close>

theorem silent_source_tick:
  assumes "\<not> (start_ticks (spike_source_array st ! s) \<le> time st
              \<and> time st < end_ticks (spike_source_array st ! s))
           \<or> (\<not> is_fast_source (spike_source_array st ! s)
              \<and> mean_isi_ticks (spike_source_array st ! s) = 0)"
  shows "source_tick lib s st = Inr (0, st)"
  using assms by (auto simp: source_tick_def Let_def)


theorem silent_source_tick_witness:
  "source_tick example_library 2 example_state = Inr (0, example_state)
   \<and> source_tick example_library 0 (example_state\<lparr>time := 100\<rparr>)
       = Inr (0, example_state\<lparr>time := 100\<rparr>)
   \<and> source_tick example_library 1 (example_state\<lparr>time := 100\<rparr>)
       = Inr (0, example_state\<lparr>time := 100\<rparr>)"
  using silent_source_tick [where st = example_state and s = 2 and lib = example_library]
    silent_source_tick [where st = "example_state\<lparr>time := 100\<rparr>" and s = 0
      and lib = example_library]
    silent_source_tick [where st = "example_state\<lparr>time := 100\<rparr>" and s = 1
      and lib = example_library]
  by (simp add: example_state_def example_sources_def)

section \<open>The end of the run\<close>

text \<open>
  C4. The claim: on every tick \<open>t \<ge> total_ticks\<close> of a finite run the handler stores the
  source records, finalises the recorder, enters the pause state and steps the tick
  counter back. The tick \<open>t\<close> is the counter after the increment at the head of
  \<^verbatim>\<open>timer_callback\<close>. With recording switched off (\<open>recording_flags = 0\<close>) the program
  does not call \<^verbatim>\<open>recording_finalise\<close>: on the sample at tick 1000 of 1000 the trace of
  the tick holds no such call.
\<close>

theorem timer_callback_pause_counterexample:
  "(case timer_callback example_library 0 [] (example_state\<lparr>recording_flags := 0, time := 999\<rparr>) of
      Inr st' \<Rightarrow> infinite_run st' \<noteq> TRUE \<and> simulation_ticks st' \<le> time st' + 1
                 \<and> Recording_finalise \<notin> set (calls st')
    | Inl e \<Rightarrow> False)"
  by code_simp

text \<open>
  C4, as the program has it. On a tick \<open>t = time + 1\<close> of a finite run with
  \<open>t \<ge> simulation_ticks\<close> the handler returns the state it was given but for two things:
  the source records of the shared-memory region are now the records in memory, and the
  trace has gained the entry into the pause state, followed by the finalising of the
  recorder if and only if recording is switched on. So no spike is generated, marked or
  sent, no random number is drawn, the parameter block of the region and every source
  record in memory are unchanged, and the tick counter is back at \<open>time\<close>, so that the
  same tick is processed again on resume.
\<close>

theorem timer_callback_pause:
  assumes fin: "infinite_run st \<noteq> TRUE"
    and over: "simulation_ticks st \<le> time st + 1"
    and len: "length (spike_source_array st) = unat (n_spike_sources (parameters st))"
    and len': "length (sdram_spike_sources st) = unat (n_spike_sources (parameters st))"
  shows "timer_callback lib t1_count irqs st =
         Inr (st\<lparr>sdram_spike_sources := spike_source_array st,
                 calls := calls st @ Simulation_handle_pause_resume
                            # (if recording_flags st > 0 then [Recording_finalise] else [])\<rparr>)"
proof -
  have s: "snd (store_poisson_parameters (st\<lparr>time := time st + 1\<rparr>))
           = st\<lparr>time := time st + 1, sdram_spike_sources := spike_source_array st\<rparr>"
  proof (cases "n_spike_sources (parameters st) > 0")
    case True
    then show ?thesis using len len' by (simp add: store_poisson_parameters_def)
  next
    case False
    then have "n_spike_sources (parameters st) = 0" by (simp add: word_greater_zero_iff)
    with len len' have "spike_source_array st = []" "sdram_spike_sources st = []" by simp_all
    then show ?thesis using False by (simp add: store_poisson_parameters_def)
  qed
  have f: "fst (store_poisson_parameters (st\<lparr>time := time st + 1\<rparr>))"
    by (simp add: store_poisson_parameters_def Let_def)
  show ?thesis using fin over f s
    by (simp add: timer_callback_def Let_def split_beta call_def)
qed

theorem timer_callback_pause_witness:
  "timer_callback example_library 0 []
     (example_state\<lparr>time := 999, spike_source_array := rev example_sources\<rparr>)
   = Inr (example_state\<lparr>time := 999, spike_source_array := rev example_sources,
            sdram_spike_sources := rev example_sources,
            calls := [Simulation_handle_pause_resume, Recording_finalise]\<rparr>)"
  using timer_callback_pause [where lib = example_library and t1_count = 0 and irqs = "[]"
      and st = "example_state\<lparr>time := 999, spike_source_array := rev example_sources\<rparr>"]
  by (simp add: example_state_def example_parameters_def example_sources_def TRUE_def)

section \<open>The flush of the recording buffer\<close>

text \<open>
  C7. When \<^verbatim>\<open>_record_spikes(time)\<close> runs on a well-formed buffer with \<open>n_buffers > 0\<close>
  (and the transfer in progress, if there is one, completes), the words handed to the
  recording subsystem are the time, \<open>n_buffers\<close> and the first \<open>n_buffers\<close> layers, no
  layer beyond them; afterwards \<open>n_buffers\<close> is 0 and every allocated word is zero. The
  program zeroes all allocated layers; where the layers from \<open>n_buffers\<close> on were zero
  already, zeroing the first \<open>n_buffers\<close> layers gives the same buffer.
\<close>

theorem record_spikes_payload_and_reset:
  assumes ok: "buffer_ok st"
    and zero: "upper_layers_zero st"
    and sp: "spikes st = Some sp"
    and nb: "n_buffers sp > 0"
    and irq: "recording_in_progress st \<longrightarrow> True \<in> set irqs"
  shows "record_spikes irqs t st =
           Inr (st\<lparr>recording_in_progress := True,
                   spikes := Some \<lparr>spikes_time = t, n_buffers = 0,
                                   out_spikes = replicate (length (out_spikes sp)) 0\<rparr>,
                   calls := calls st @
                     [Recording_record_and_notify 0
                        (t # n_buffers sp
                           # take (unat (n_buffers sp) * unat (n_spike_buffer_words st))
                               (out_spikes sp))]\<rparr>)
         \<and> reset_layers (n_spike_buffer_words st) (unat (n_buffers sp)) (out_spikes sp)
             = replicate (length (out_spikes sp)) 0"
proof -
  let ?w = "n_spike_buffer_words st" and ?a = "n_spike_buffers_allocated st"
  from ok sp have sz: "unat (spike_buffer_size st) = 4 * unat ?w"
    and bound: "8 + 4 * (unat ?a * unat ?w) < 2 ^ 32"
    and len: "length (out_spikes sp) = unat ?a * unat ?w"
    and le: "n_buffers sp \<le> ?a"
    by (simp_all add: buffer_ok_def)
  from le have "unat (n_buffers sp) \<le> unat ?a" by (simp add: word_le_nat_alt)
  then have le': "unat (n_buffers sp) * unat ?w \<le> unat ?a * unat ?w" by (rule mult_le_mono1)
  have "unat (n_buffers sp) * unat (spike_buffer_size st)
        = 4 * (unat (n_buffers sp) * unat ?w)" by (simp add: sz)
  with bound le' have "8 + unat (n_buffers sp) * unat (spike_buffer_size st) < 2 ^ 32"
    by linarith
  then have "unat (8 + n_buffers sp * spike_buffer_size st)
             = 8 + unat (n_buffers sp) * unat (spike_buffer_size st)"
    by (rule unat_buffer_bytes)
  with sz have words: "unat (8 + n_buffers sp * spike_buffer_size st) div 4
             = Suc (Suc (unat (n_buffers sp) * unat ?w))" by simp
  from bound have "unat ?a * unat ?w < 2 ^ 32" by linarith
  with len have all: "reset_layers ?w (unat ?a) (out_spikes sp)
                      = replicate (length (out_spikes sp)) 0"
    by (simp add: reset_layers_all)
  from le' bound have "unat (n_buffers sp) * unat ?w < 2 ^ 32" by linarith
  with zero sp have first: "reset_layers ?w (unat (n_buffers sp)) (out_spikes sp)
                      = replicate (length (out_spikes sp)) 0"
    by (simp add: reset_layers_first upper_layers_zero_def)
  from wait_recording_returns [OF irq]
  have "record_spikes irqs t st =
           Inr (st\<lparr>recording_in_progress := True,
                   spikes := Some \<lparr>spikes_time = t, n_buffers = 0,
                                   out_spikes = replicate (length (out_spikes sp)) 0\<rparr>,
                   calls := calls st @
                     [Recording_record_and_notify 0
                        (t # n_buffers sp
                           # take (unat (n_buffers sp) * unat (n_spike_buffer_words st))
                               (out_spikes sp))]\<rparr>)"
    using sp nb words all
    by (simp add: record_spikes_def Let_def call_def reset_spikes_def spikes_words_def)
  with first show ?thesis by simp
qed

theorem record_spikes_payload_and_reset_witness:
  "record_spikes [False, True] 4 example_recorded =
     Inr (example_recorded\<lparr>recording_in_progress := True,
            spikes := Some \<lparr>spikes_time = 4, n_buffers = 0, out_spikes = [0, 0, 0]\<rparr>,
            calls := [Recording_record_and_notify 0 [4, 2, 3, 2]]\<rparr>)
   \<and> reset_layers 1 2 [3, 2, 0] = [0, 0, 0]"
proof -
  have ok: "buffer_ok example_recorded"
    by (simp add: example_recorded_def buffer_ok_def)
  have z: "upper_layers_zero example_recorded"
    by (simp add: example_recorded_def upper_layers_zero_def)
  have sp: "spikes example_recorded
            = Some \<lparr>spikes_time = 0, n_buffers = 2, out_spikes = [3, 2, 0]\<rparr>"
    by (simp add: example_recorded_def)
  have nb: "n_buffers \<lparr>spikes_time = 0, n_buffers = 2, out_spikes = [3, 2, 0]\<rparr> > 0"
    by simp
  have irq: "recording_in_progress example_recorded \<longrightarrow> True \<in> set [False, True]"
    by simp
  from record_spikes_payload_and_reset [OF ok z sp nb irq, of 4] show ?thesis
    by (simp add: example_recorded_def)
qed

section \<open>Recording switched off\<close>

text \<open>
  Clearing the recording part commutes with every step of the program that returns: a
  run with recording switched off goes through the states of the run with recording,
  less their recording part.
\<close>

lemma without_recording_fields [simp]:
  "parameters (without_recording st) = parameters st"
  "spike_source_array (without_recording st) = spike_source_array st"
  "time_between_spikes (without_recording st) = time_between_spikes st"
  "expected_time (without_recording st) = expected_time st"
  "recording_flags (without_recording st) = 0"
  "time (without_recording st) = time st"
  "simulation_ticks (without_recording st) = simulation_ticks st"
  "infinite_run (without_recording st) = infinite_run st"
  "calls (without_recording st) = other_calls st"
  by (simp_all add: without_recording_def)

lemma without_recording_call:
  "without_recording (call c st)
   = (if is_recording_call c then without_recording st else call c (without_recording st))"
  by (simp add: without_recording_def call_def other_calls_def)

lemma without_recording_send_spike:
  "without_recording (send_spike k st) = send_spike k (without_recording st)"
  by (simp add: without_recording_def send_spike_def call_def other_calls_def)

lemma without_recording_send_spikes:
  "without_recording (send_spikes n k st) = send_spikes n k (without_recording st)"
  by (induction n arbitrary: st) (simp_all add: without_recording_send_spike)

lemma without_recording_set_seed:
  "without_recording (set_seed sd st) = set_seed sd (without_recording st)"
  by (simp add: without_recording_def set_seed_def other_calls_def)

lemma without_recording_update_source:
  "without_recording (update_source s f st) = update_source s f (without_recording st)"
  by (simp add: without_recording_def update_source_def other_calls_def)

lemma without_recording_mark_spike:
  assumes "mark_spike lib i n st = Inr st'"
  shows "without_recording st' = without_recording st"
proof -
  from mark_spike_calls [OF assms] obtain sp a cs where
    "st' = st\<lparr>spikes := sp, n_spike_buffers_allocated := a, calls := calls st @ cs\<rparr>"
    and "list_all is_recording_call cs" by blast
  then show ?thesis
    by (simp add: without_recording_def other_calls_def recording_calls_filtered)
qed

lemma mark_spike_disabled:
  "recording_flags st = 0 \<Longrightarrow> mark_spike lib i n st = Inr st"
  by (simp add: mark_spike_def)

lemma without_recording_fast:
  "fast_spike_source_get_num_spikes lib e (without_recording st)
   = (fst (fast_spike_source_get_num_spikes lib e st),
      without_recording (snd (fast_spike_source_get_num_spikes lib e st)))"
  by (simp add: fast_spike_source_get_num_spikes_def split_beta without_recording_set_seed)

lemma without_recording_slow_draw:
  "slow_spike_source_get_time_to_spike lib m (without_recording st)
   = (fst (slow_spike_source_get_time_to_spike lib m st),
      without_recording (snd (slow_spike_source_get_time_to_spike lib m st)))"
  by (simp add: slow_spike_source_get_time_to_spike_def split_beta without_recording_set_seed)

lemma slow_spike_Inr:
  assumes m: "mark_spike lib (of_nat s) 1 st = Inr st1"
  shows "slow_spike lib s st = Inr (st1\<lparr>
      expected_time := (if has_key (parameters st1)
                        then expected_time st1 - time_between_spikes st1 else expected_time st1),
      calls := calls st1 @ (if has_key (parameters st1)
                            then [Spin1_send_mc_packet (key (parameters st1) OR of_nat s)] else []),
      parameters := (parameters st1)\<lparr>spike_source_seed :=
          snd (exponential_dist_variate lib (spike_source_seed (parameters st1)))\<rparr>,
      spike_source_array := (spike_source_array st1)[s := (spike_source_array st1 ! s)
           \<lparr>time_to_spike_ticks := time_to_spike_ticks (spike_source_array st1 ! s)
              + real_mul (fst (exponential_dist_variate lib (spike_source_seed (parameters st1))))
                  (mean_isi_ticks (spike_source_array st1 ! s))\<rparr>]\<rparr>)"
  using m
  by (auto simp: slow_spike_def Let_def split_beta send_spike_def call_def
        slow_spike_source_get_time_to_spike_def set_seed_def update_source_def)

lemma without_recording_slow_spike:
  assumes "slow_spike lib s st = Inr st'"
  shows "slow_spike lib s (without_recording st) = Inr (without_recording st')"
proof -
  from assms obtain st1 where m: "mark_spike lib (of_nat s) 1 st = Inr st1"
    by (auto simp: slow_spike_def split: sum.splits)
  have w: "without_recording st1 = without_recording st"
    by (rule without_recording_mark_spike [OF m])
  have m0: "mark_spike lib (of_nat s) 1 (without_recording st) = Inr (without_recording st1)"
    by (simp add: w mark_spike_disabled)
  from assms slow_spike_Inr [OF m] have "st' = st1\<lparr>
      expected_time := (if has_key (parameters st1)
                        then expected_time st1 - time_between_spikes st1 else expected_time st1),
      calls := calls st1 @ (if has_key (parameters st1)
                            then [Spin1_send_mc_packet (key (parameters st1) OR of_nat s)] else []),
      parameters := (parameters st1)\<lparr>spike_source_seed :=
          snd (exponential_dist_variate lib (spike_source_seed (parameters st1)))\<rparr>,
      spike_source_array := (spike_source_array st1)[s := (spike_source_array st1 ! s)
           \<lparr>time_to_spike_ticks := time_to_spike_ticks (spike_source_array st1 ! s)
              + real_mul (fst (exponential_dist_variate lib (spike_source_seed (parameters st1))))
                  (mean_isi_ticks (spike_source_array st1 ! s))\<rparr>]\<rparr>" by simp
  then show ?thesis
    unfolding slow_spike_Inr [OF m0]
    by (simp add: without_recording_def other_calls_def)
qed

lemma without_recording_source_tick:
  assumes "source_tick lib s st = Inr (n, st')"
  shows "source_tick lib s (without_recording st) = Inr (n, without_recording st')"
proof (cases "is_fast_source (spike_source_array st ! s)")
  case fast: True
  show ?thesis
  proof (cases "time st \<ge> start_ticks (spike_source_array st ! s)
                \<and> time st < end_ticks (spike_source_array st ! s)")
    case False
    with assms fast show ?thesis by (auto simp: source_tick_def)
  next
    case True
    obtain k st1 where f: "fast_spike_source_get_num_spikes lib
        (exp_minus_lambda (spike_source_array st ! s)) st = (k, st1)" by fastforce
    then have f0: "fast_spike_source_get_num_spikes lib
        (exp_minus_lambda (spike_source_array st ! s)) (without_recording st)
        = (k, without_recording st1)" by (simp add: without_recording_fast)
    show ?thesis
    proof (cases "k > 0")
      case False
      with assms fast True f f0 show ?thesis by (auto simp: source_tick_def)
    next
      case k: True
      with assms fast True f obtain st2 where m: "mark_spike lib (of_nat s) k st1 = Inr st2"
        by (auto simp: source_tick_def split: sum.splits)
      have w: "without_recording st2 = without_recording st1"
        by (rule without_recording_mark_spike [OF m])
      have m0: "mark_spike lib (of_nat s) k (without_recording st1) = Inr (without_recording st2)"
        by (simp add: w mark_spike_disabled)
      have p: "parameters st2 = parameters st1"
        using arg_cong [OF w, of parameters] by simp
      from assms fast True f k m show ?thesis
        unfolding source_tick_def
        by (auto simp: f0 m0 Let_def without_recording_send_spikes)
    qed
  qed
next
  case slow: False
  show ?thesis
  proof (cases "time st \<ge> start_ticks (spike_source_array st ! s)
                \<and> time st < end_ticks (spike_source_array st ! s)
                \<and> mean_isi_ticks (spike_source_array st ! s) \<noteq> 0")
    case False
    with assms slow show ?thesis by (auto simp: source_tick_def)
  next
    case True
    show ?thesis
    proof (cases "sint (time_to_spike_ticks (spike_source_array st ! s)) \<le> 0")
      case False
      with assms slow True show ?thesis
        by (auto simp: source_tick_def without_recording_update_source)
    next
      case c: True
      with assms slow True obtain st1 where 1: "slow_spike lib s st = Inr st1"
        by (auto simp: source_tick_def split: sum.splits)
      from assms slow True c 1 show ?thesis
        by (auto simp: source_tick_def without_recording_slow_spike [OF 1]
            without_recording_update_source)
    qed
  qed
qed

lemma without_recording_sweep:
  "sweep lib ss st = Inr (ns, st') \<Longrightarrow>
   sweep lib ss (without_recording st) = Inr (ns, without_recording st')"
proof (induction ss arbitrary: st ns)
  case Nil
  then show ?case by simp
next
  case (Cons s ss)
  from Cons.prems obtain n st1 ns1 where 1: "source_tick lib s st = Inr (n, st1)"
    and 2: "sweep lib ss st1 = Inr (ns1, st')" and 3: "ns = n # ns1"
    by (auto split: sum.splits)
  from without_recording_source_tick [OF 1] Cons.IH [OF 2] 3 show ?case by simp
qed


lemma reset_spikes_only_spikes:
  "\<exists>sp. reset_spikes st = st\<lparr>spikes := sp\<rparr>"
proof (cases "spikes st")
  case None
  then have "reset_spikes st = st\<lparr>spikes := None\<rparr>" by (simp add: reset_spikes_def)
  then show ?thesis ..
next
  case (Some a)
  then have "reset_spikes st = st\<lparr>spikes := Some (a\<lparr>n_buffers := 0,
                out_spikes := reset_layers (n_spike_buffer_words st)
                    (unat (n_spike_buffers_allocated st)) (out_spikes a)\<rparr>)\<rparr>"
    by (simp add: reset_spikes_def)
  then show ?thesis ..
qed

lemma without_recording_record_spikes:
  assumes "record_spikes irqs t st = Inr st'"
  shows "without_recording st' = without_recording st"
proof -
  from assms obtain st1 where 1: "wait_recording irqs st = Inr st1"
    by (auto simp: record_spikes_def split: sum.splits)
  note w = wait_recording_Inr [OF 1]
  show ?thesis
  proof (cases "\<exists>sp. spikes st1 = Some sp \<and> n_buffers sp > 0")
    case False
    with assms 1 have "st' = st1"
      by (auto simp: record_spikes_def split: option.splits if_splits)
    with w show ?thesis by (simp add: without_recording_def other_calls_def)
  next
    case True
    then obtain sp where sp: "spikes st1 = Some sp" "n_buffers sp > 0" by blast
    define st4 where "st4 = call (Recording_record_and_notify 0
         (take (unat (8 + n_buffers sp * spike_buffer_size st1) div 4)
            (spikes_words (sp\<lparr>spikes_time := t\<rparr>))))
         (st1\<lparr>recording_in_progress := True, spikes := Some (sp\<lparr>spikes_time := t\<rparr>)\<rparr>)"
    from assms 1 sp have "st' = reset_spikes st4"
      by (simp add: record_spikes_def Let_def st4_def)
    moreover obtain sp' where "reset_spikes st4 = st4\<lparr>spikes := sp'\<rparr>"
      using reset_spikes_only_spikes by blast
    ultimately have "st' = st4\<lparr>spikes := sp'\<rparr>" by simp
    then show ?thesis unfolding st4_def w
      by (simp add: without_recording_def other_calls_def call_def)
  qed
qed

lemma without_recording_store:
  "store_poisson_parameters (without_recording st)
   = (True, without_recording (snd (store_poisson_parameters st)))"
  by (simp add: store_poisson_parameters_def Let_def without_recording_def other_calls_def)

lemma fst_store [simp]: "fst (store_poisson_parameters st) = True"
  by (simp add: store_poisson_parameters_def Let_def)

lemma timer_callback_running:
  assumes "\<not> (infinite_run st \<noteq> TRUE \<and> time st + 1 \<ge> simulation_ticks st)"
  shows "timer_callback lib t1_count irqs st =
    (case sweep lib [0..<unat (n_spike_sources (parameters st))]
            (st\<lparr>time := time st + 1,
                 expected_time := t1_count - time_between_spikes st,
                 calls := calls st @ [Spin1_delay_us (random_backoff_us (parameters st)),
                                      Out_spikes_reset]\<rparr>) of
       Inl e \<Rightarrow> Inl e
     | Inr (ns, st4) \<Rightarrow>
         (case (if recording_flags st4 > 0 then record_spikes irqs (time st4) st4
                else Inr st4) of
            Inl e \<Rightarrow> Inl e
          | Inr st5 \<Rightarrow>
              Inr (if recording_flags st5 > 0
                   then call (Recording_do_timestep_update (time st5)) st5
                   else st5)))"
  using assms by (auto simp: timer_callback_def Let_def call_def)

lemma timer_callback_pausing:
  assumes "infinite_run st \<noteq> TRUE \<and> time st + 1 \<ge> simulation_ticks st"
  shows "timer_callback lib t1_count irqs st =
    Inr ((snd (store_poisson_parameters st))
           \<lparr>calls := calls st @ Simulation_handle_pause_resume
                        # (if recording_flags st > 0 then [Recording_finalise] else [])\<rparr>)"
  using assms
  by (simp add: timer_callback_def Let_def call_def split_beta store_poisson_parameters_def)

lemma without_recording_timer_callback:
  assumes "timer_callback lib t1_count irqs st = Inr st'"
  shows "timer_callback lib t1_count irqs' (without_recording st) = Inr (without_recording st')"
proof (cases "infinite_run st \<noteq> TRUE \<and> time st + 1 \<ge> simulation_ticks st")
  case True
  then have c: "infinite_run (without_recording st) \<noteq> TRUE
      \<and> time (without_recording st) + 1 \<ge> simulation_ticks (without_recording st)" by simp
  from assms show ?thesis
    unfolding timer_callback_pausing [OF True] timer_callback_pausing [OF c]
    by (auto simp: without_recording_def other_calls_def store_poisson_parameters_def Let_def)
next
  case False
  then have c: "\<not> (infinite_run (without_recording st) \<noteq> TRUE
      \<and> time (without_recording st) + 1 \<ge> simulation_ticks (without_recording st))" by simp
  define st3 where "st3 = st\<lparr>time := time st + 1,
                 expected_time := t1_count - time_between_spikes st,
                 calls := calls st @ [Spin1_delay_us (random_backoff_us (parameters st)),
                                      Out_spikes_reset]\<rparr>"
  have e: "(without_recording st)\<lparr>time := time (without_recording st) + 1,
                 expected_time := t1_count - time_between_spikes (without_recording st),
                 calls := calls (without_recording st)
                   @ [Spin1_delay_us (random_backoff_us (parameters (without_recording st))),
                      Out_spikes_reset]\<rparr> = without_recording st3"
    by (simp add: st3_def without_recording_def other_calls_def)
  from assms obtain ns st4 where
    sw: "sweep lib [0..<unat (n_spike_sources (parameters st))] st3 = Inr (ns, st4)"
    unfolding timer_callback_running [OF False] st3_def [symmetric]
    by (auto split: sum.splits)
  note sw0 = without_recording_sweep [OF sw]
  from assms sw obtain st5 where
    r: "(if recording_flags st4 > 0 then record_spikes irqs (time st4) st4 else Inr st4) = Inr st5"
    and f: "st' = (if recording_flags st5 > 0
                   then call (Recording_do_timestep_update (time st5)) st5 else st5)"
    unfolding timer_callback_running [OF False] st3_def [symmetric]
    by (auto split: sum.splits)
  from r have "without_recording st5 = without_recording st4"
    by (auto simp: without_recording_record_spikes split: if_splits)
  with f have "without_recording st' = without_recording st4"
    by (simp add: without_recording_call)
  with sw0 show ?thesis
    unfolding timer_callback_running [OF c] e
    by simp
qed

lemma recording_part_simps [simp]:
  "recording_part (send_spike k st) = recording_part st"
  "recording_part (set_seed sd st) = recording_part st"
  "recording_part (update_source s f st) = recording_part st"
  "recording_part (st\<lparr>time := x\<rparr>) = recording_part st"
  "recording_part (st\<lparr>expected_time := x\<rparr>) = recording_part st"
  "recording_part (st\<lparr>sdram_spike_sources := y\<rparr>) = recording_part st"
  "\<not> is_recording_call c \<Longrightarrow> recording_part (call c st) = recording_part st"
  by (simp_all add: recording_part_def send_spike_def set_seed_def update_source_def call_def)

lemma recording_part_send_spikes [simp]:
  "recording_part (send_spikes n k st) = recording_part st"
  by (induction n arbitrary: st) simp_all

lemma recording_part_flags: "recording_part a = recording_part b \<Longrightarrow>
  recording_flags a = recording_flags b"
  by (simp add: recording_part_def)

lemma source_tick_disabled:
  assumes "recording_flags st = 0"
  shows "\<exists>n st'. source_tick lib s st = Inr (n, st') \<and> recording_part st' = recording_part st"
proof -
  have m: "mark_spike lib i n st1 = Inr st1" if "recording_part st1 = recording_part st"
    for i n st1 using that assms recording_part_flags [OF that]
    by (simp add: mark_spike_disabled)
  have f: "recording_part (snd (fast_spike_source_get_num_spikes lib e st)) = recording_part st"
    for e by (simp add: fast_spike_source_get_num_spikes_def split_beta)
  have d: "recording_part (snd (slow_spike_source_get_time_to_spike lib e st1)) = recording_part st1"
    for e st1 by (simp add: slow_spike_source_get_time_to_spike_def split_beta)
  have sl: "\<exists>st'. slow_spike lib s st = Inr st' \<and> recording_part st' = recording_part st"
    by (simp add: slow_spike_def m Let_def split_beta d)
  then obtain st1 where sl1: "slow_spike lib s st = Inr st1"
    "recording_part st1 = recording_part st" by blast
  obtain k st2 where f2: "fast_spike_source_get_num_spikes lib
        (exp_minus_lambda (spike_source_array st ! s)) st = (k, st2)" by fastforce
  with f [of "exp_minus_lambda (spike_source_array st ! s)"]
  have r2: "recording_part st2 = recording_part st" by simp
  show ?thesis
    by (simp add: source_tick_def Let_def f2 m [OF r2] r2 sl1)
qed

lemma sweep_disabled:
  "recording_flags st = 0 \<Longrightarrow>
   \<exists>ns st'. sweep lib ss st = Inr (ns, st') \<and> recording_part st' = recording_part st"
proof (induction ss arbitrary: st)
  case Nil
  then show ?case by simp
next
  case (Cons s ss)
  from source_tick_disabled [OF Cons.prems] obtain n st1 where
    1: "source_tick lib s st = Inr (n, st1)" and 2: "recording_part st1 = recording_part st"
    by blast
  from 2 Cons.prems have "recording_flags st1 = 0" by (simp add: recording_part_def)
  from Cons.IH [OF this] obtain ns st' where
    "sweep lib ss st1 = Inr (ns, st')" "recording_part st' = recording_part st1" by blast
  with 1 2 show ?case by simp
qed

lemma timer_callback_disabled:
  assumes "recording_flags st = 0"
  shows "\<exists>st'. timer_callback lib t1_count irqs st = Inr st'
           \<and> recording_part st' = recording_part st"
proof (cases "infinite_run st \<noteq> TRUE \<and> time st + 1 \<ge> simulation_ticks st")
  case True
  with assms show ?thesis
    unfolding timer_callback_pausing [OF True]
    by (simp add: store_poisson_parameters_def recording_part_def Let_def)
next
  case False
  define st3 where "st3 = st\<lparr>time := time st + 1,
                 expected_time := t1_count - time_between_spikes st,
                 calls := calls st @ [Spin1_delay_us (random_backoff_us (parameters st)),
                                      Out_spikes_reset]\<rparr>"
  have r3: "recording_part st3 = recording_part st"
    by (simp add: st3_def recording_part_def)
  with assms have "recording_flags st3 = 0" by (simp add: recording_part_def)
  from sweep_disabled [OF this] obtain ns st4 where
    sw: "sweep lib [0..<unat (n_spike_sources (parameters st))] st3 = Inr (ns, st4)"
    and r4: "recording_part st4 = recording_part st3" by blast
  from r4 r3 assms have "recording_flags st4 = 0" by (simp add: recording_part_def)
  with sw r4 r3 show ?thesis
    unfolding timer_callback_running [OF False] st3_def [symmetric]
    by simp
qed

text \<open>
  C10. The claim: with recording switched off \<^verbatim>\<open>_mark_spike\<close> does nothing and the tick
  neither flushes nor notifies the recording subsystem, and spike generation and fabric
  emission proceed identically whether or not recording is enabled. The last part fails
  where recording stops the tick. On the sample with an allocator that has no memory
  left, the tick with recording on ends in the trap of \<^verbatim>\<open>_mark_spike\<close> before the first
  packet, while the same tick with recording off sends three packets; and on a buffer
  whose transfer is never reported complete, the tick with recording on waits in
  \<^verbatim>\<open>_record_spikes\<close> for ever, while the tick with recording off returns.
\<close>

theorem recording_changes_emission_counterexample:
  "timer_callback (example_library\<lparr>spin1_malloc := (\<lambda>n. False)\<rparr>) 77 [] example_state
     = Inl RTE_SWERR
   \<and> (case timer_callback (example_library\<lparr>spin1_malloc := (\<lambda>n. False)\<rparr>) 77 []
              (example_state\<lparr>recording_flags := 0\<rparr>) of
        Inr st' \<Rightarrow> sent st' = [0x1000, 0x1001, 0x1001]
      | Inl e \<Rightarrow> False)
   \<and> timer_callback example_library 77 [] example_recorded = Inl WAITS_FOREVER
   \<and> (case timer_callback example_library 77 [] (example_recorded\<lparr>recording_flags := 0\<rparr>) of
        Inr st' \<Rightarrow> sent st' = [0x1000, 0x1001, 0x1001]
      | Inl e \<Rightarrow> False)"
  by code_simp

text \<open>
  C10, as the program has it. With \<open>recording_flags = 0\<close> a call of \<^verbatim>\<open>_mark_spike\<close>
  returns the state it was given (buffer pointer, capacity and contents unchanged,
  nothing allocated), and a timer tick returns with the recording part of the state
  unchanged: the buffer as it was and no new allocator call, flush or notification of
  the recording subsystem in the trace. And whatever the recording flags, a tick that
  returns (no allocation of \<^verbatim>\<open>_mark_spike\<close> fails and the wait of \<^verbatim>\<open>_record_spikes\<close> ends)
  leaves, apart from the recording part, the state that the same tick leaves with
  recording switched off: the same source records, seed, tick counter and packets, in
  the same order.
\<close>

theorem recording_disabled:
  "(recording_flags st = 0 \<longrightarrow> mark_spike lib i n st = Inr st)
   \<and> (recording_flags st = 0 \<longrightarrow>
        (\<exists>st'. timer_callback lib t1_count irqs st = Inr st'
              \<and> recording_part st' = recording_part st))
   \<and> (timer_callback lib t1_count irqs st = Inr st' \<longrightarrow>
        timer_callback lib t1_count irqs' (without_recording st)
          = Inr (without_recording st'))"
  using mark_spike_disabled [of st lib i n]
    timer_callback_disabled [of st lib t1_count irqs]
    without_recording_timer_callback [of lib t1_count irqs st st' irqs']
  by blast

theorem recording_disabled_witness:
  "mark_spike example_library 1 2 (example_state\<lparr>recording_flags := 0\<rparr>)
     = Inr (example_state\<lparr>recording_flags := 0\<rparr>)
   \<and> (\<exists>st'. timer_callback example_library 77 [] (example_state\<lparr>recording_flags := 0\<rparr>)
              = Inr st'
            \<and> recording_part st' = recording_part (example_state\<lparr>recording_flags := 0\<rparr>))
   \<and> (\<exists>st'. timer_callback example_library 77 [] example_state = Inr st'
            \<and> sent st' = [0x1000, 0x1001, 0x1001]
            \<and> timer_callback example_library 77 [] (without_recording example_state)
                = Inr (without_recording st'))"
proof -
  have f: "recording_flags (example_state\<lparr>recording_flags := 0\<rparr>) = 0" by simp
  have "\<not> isl (timer_callback example_library 77 [] example_state)" by code_simp
  then obtain st' where r: "timer_callback example_library 77 [] example_state = Inr st'"
    by (cases "timer_callback example_library 77 [] example_state") auto
  have "(case timer_callback example_library 77 [] example_state of
           Inr st' \<Rightarrow> sent st' = [0x1000, 0x1001, 0x1001] | Inl e \<Rightarrow> False)" by code_simp
  with r have s: "sent st' = [0x1000, 0x1001, 0x1001]" by simp
  from recording_disabled [of "example_state\<lparr>recording_flags := 0\<rparr>" example_library 1 2
      77 "[]" example_state "[]"] f
  have "mark_spike example_library 1 2 (example_state\<lparr>recording_flags := 0\<rparr>)
     = Inr (example_state\<lparr>recording_flags := 0\<rparr>)
   \<and> (\<exists>st'. timer_callback example_library 77 [] (example_state\<lparr>recording_flags := 0\<rparr>)
              = Inr st'
            \<and> recording_part st' = recording_part (example_state\<lparr>recording_flags := 0\<rparr>))"
    by blast
  moreover from recording_disabled [of example_state example_library 1 2 77 "[]" st' "[]"] r
  have "timer_callback example_library 77 [] (without_recording example_state)
          = Inr (without_recording st')" by blast
  ultimately show ?thesis using r s by blast
qed

section \<open>Marking spikes\<close>

text \<open>Words as bit fields: one bit per source, 32 sources to a word.\<close>

lemma push_bit_1_nonzero:
  assumes "m < 32"
  shows "(push_bit m 1 :: uint32_t) \<noteq> 0"
  using assms by simp

lemma bit_mask_test:
  fixes x :: uint32_t
  assumes "m < 32"
  shows "(x AND push_bit m 1 \<noteq> 0) \<longleftrightarrow> bit x m"
proof -
  have "x AND push_bit m 1 = (if bit x m then push_bit m 1 else 0)"
    by (rule bit_eqI) (auto simp: bit_simps)
  with push_bit_1_nonzero [OF assms] show ?thesis by simp
qed

lemma low_bits_less:
  fixes s :: uint32_t
  shows "unat (s AND 0x1F) < 32"
proof -
  have "s AND 0x1F \<le> 0x1F" by (rule word_and_le1)
  then show ?thesis by (simp add: word_le_nat_alt)
qed

lemma bit_field_test_set:
  fixes x i s :: uint32_t
  shows "((x OR push_bit (unat (i AND 0x1F)) 1) AND push_bit (unat (s AND 0x1F)) 1 \<noteq> 0)
     \<longleftrightarrow> (x AND push_bit (unat (s AND 0x1F)) 1 \<noteq> 0) \<or> i AND 0x1F = s AND 0x1F"
proof -
  have "bit (x OR push_bit (unat (i AND 0x1F)) 1) (unat (s AND 0x1F))
        \<longleftrightarrow> bit x (unat (s AND 0x1F)) \<or> unat (i AND 0x1F) = unat (s AND 0x1F)"
    using low_bits_less [of s] by (auto simp: bit_simps)
  then show ?thesis
    unfolding bit_mask_test [OF low_bits_less] by (simp only: word_unat_eq_iff)
qed

lemma low_bits_take_bit:
  fixes s :: uint32_t
  shows "s AND 0x1F = take_bit 5 s"
proof -
  have "(0x1F :: uint32_t) = mask 5" by (simp add: mask_eq_exp_minus_1)
  then show ?thesis by (simp add: take_bit_eq_mask)
qed

lemma source_index_split:
  fixes i s :: uint32_t
  shows "s = i \<longleftrightarrow> drop_bit 5 s = drop_bit 5 i \<and> s AND 0x1F = i AND 0x1F"
proof
  assume "drop_bit 5 s = drop_bit 5 i \<and> s AND 0x1F = i AND 0x1F"
  then have d: "drop_bit 5 s = drop_bit 5 i" and a: "take_bit 5 s = take_bit 5 i"
    by (simp_all add: low_bits_take_bit)
  show "s = i"
  proof (rule bit_eqI)
    fix n
    show "bit s n \<longleftrightarrow> bit i n"
    proof (cases "n < 5")
      case True
      from a have "bit (take_bit 5 s) n = bit (take_bit 5 i) n" by simp
      with True show ?thesis by (simp add: bit_take_bit_iff)
    next
      case False
      from d have "bit (drop_bit 5 s) (n - 5) = bit (drop_bit 5 i) (n - 5)" by simp
      with False show ?thesis by (simp add: bit_drop_bit_eq)
    qed
  qed
qed simp

lemma unat_drop_bit_5:
  fixes s :: uint32_t
  shows "unat (drop_bit 5 s) = unat s div 32"
  by (simp add: drop_bit_eq_div unat_div)

lemma unat_drop_bit_2:
  fixes s :: uint32_t
  shows "unat (drop_bit 2 s) = unat s div 4"
  by (simp add: drop_bit_eq_div unat_div)

lemma length_bit_field_set [simp]: "length (bit_field_set base i b) = length b"
  by (simp add: bit_field_set_def)

lemma length_mark_layers [simp]: "length (mark_layers w n i b) = length b"
  by (induction n arbitrary: b) simp_all

lemma nth_bit_field_set:
  assumes "p < length b"
  shows "bit_field_set base i b ! p
         = (if p = base + unat (drop_bit 5 i)
            then b ! p OR push_bit (unat (i AND 0x1F)) 1 else b ! p)"
  using assms by (simp add: bit_field_set_def nth_list_update)

lemma layer_word_unique:
  fixes k k' j j' u :: nat
  assumes "j < u" and "j' < u"
  shows "k * u + j = k' * u + j' \<longleftrightarrow> k = k' \<and> j = j'"
proof
  assume e: "k * u + j = k' * u + j'"
  from assms have "(k * u + j) div u = k" "(k' * u + j') div u = k'" by simp_all
  with e have "k = k'" by simp
  with e show "k = k' \<and> j = j'" by simp
qed simp

lemma nth_mark_layers:
  assumes "p < length b" and "n * unat w < 2 ^ 32" and "unat (drop_bit 5 i) < unat w"
  shows "mark_layers w n i b ! p
         = (if \<exists>k<n. p = k * unat w + unat (drop_bit 5 i)
            then b ! p OR push_bit (unat (i AND 0x1F)) 1 else b ! p)"
  using assms(1,2)
proof (induction n arbitrary: b)
  case 0
  then show ?case by simp
next
  case (Suc n)
  let ?j = "unat (drop_bit 5 i)" and ?m = "push_bit (unat (i AND 0x1F)) 1 :: uint32_t"
  from Suc.prems have n: "n * unat w < 2 ^ 32" by simp
  have o: "out_spikes_offset w (of_nat n) = n * unat w" by (rule unat_layer_offset [OF n])
  let ?b = "bit_field_set (n * unat w) i b"
  from Suc.prems have p: "p < length ?b" by simp
  have 1: "mark_layers w (Suc n) i b ! p
        = (if \<exists>k<n. p = k * unat w + ?j then ?b ! p OR ?m else ?b ! p)"
    using Suc.IH [OF p n] by (simp add: o)
  have 2: "?b ! p = (if p = n * unat w + ?j then b ! p OR ?m else b ! p)"
    using Suc.prems(1) by (rule nth_bit_field_set)
  have 3: "\<not> (\<exists>k<n. p = k * unat w + ?j)" if "p = n * unat w + ?j"
    using that layer_word_unique [OF assms(3) assms(3)] by auto
  have 4: "(\<exists>k<Suc n. p = k * unat w + ?j)
           \<longleftrightarrow> (\<exists>k<n. p = k * unat w + ?j) \<or> p = n * unat w + ?j"
    by (auto simp: less_Suc_eq)
  show ?case unfolding 1 2 4 using 3 by auto
qed

lemma bit_field_test_zero:
  "p + unat (drop_bit 5 s) < length b \<Longrightarrow> b ! (p + unat (drop_bit 5 s)) = 0 \<Longrightarrow>
   \<not> bit_field_test p s b"
  by (simp add: bit_field_test_def)

lemma test_mark_layers:
  assumes len: "length b = a * unat w" and bound: "a * unat w < 2 ^ 32"
    and n: "n \<le> a" and k: "k < a"
    and js: "unat (drop_bit 5 s) < unat w" and ji: "unat (drop_bit 5 i) < unat w"
  shows "bit_field_test (k * unat w) s (mark_layers w n i b)
         \<longleftrightarrow> bit_field_test (k * unat w) s b \<or> (k < n \<and> s = i)"
proof -
  let ?p = "k * unat w + unat (drop_bit 5 s)"
  from k have "Suc k \<le> a" by simp
  then have "Suc k * unat w \<le> a * unat w" by (rule mult_le_mono1)
  with js len have p: "?p < length b" by simp
  from n have "n * unat w \<le> a * unat w" by (rule mult_le_mono1)
  with bound have nb: "n * unat w < 2 ^ 32" by linarith
  have u: "(\<exists>k'<n. ?p = k' * unat w + unat (drop_bit 5 i))
           \<longleftrightarrow> k < n \<and> drop_bit 5 s = drop_bit 5 i"
    using layer_word_unique [OF js ji] by (auto simp: word_unat_eq_iff)
  let ?x = "b ! ?p" and ?mi = "push_bit (unat (i AND 0x1F)) 1 :: uint32_t"
    and ?ms = "push_bit (unat (s AND 0x1F)) 1 :: uint32_t"
  have t: "bit_field_test (k * unat w) s (mark_layers w n i b)
           \<longleftrightarrow> ((if k < n \<and> drop_bit 5 s = drop_bit 5 i then ?x OR ?mi else ?x) AND ?ms \<noteq> 0)"
    unfolding bit_field_test_def nth_mark_layers [OF p nb ji] u ..
  have t0: "bit_field_test (k * unat w) s b \<longleftrightarrow> (?x AND ?ms \<noteq> 0)"
    unfolding bit_field_test_def ..
  show ?thesis
  proof (cases "k < n \<and> drop_bit 5 s = drop_bit 5 i")
    case True
    have "bit_field_test (k * unat w) s (mark_layers w n i b)
               \<longleftrightarrow> ((?x OR ?mi) AND ?ms \<noteq> 0)"
      unfolding t if_P [OF True] by (rule refl)
    also have "\<dots> \<longleftrightarrow> (?x AND ?ms \<noteq> 0) \<or> i AND 0x1F = s AND 0x1F"
      by (rule bit_field_test_set)
    also have "\<dots> \<longleftrightarrow> bit_field_test (k * unat w) s b \<or> (k < n \<and> s = i)"
      unfolding t0 source_index_split [of s i] using True by metis
    finally show ?thesis .
  next
    case False
    have "bit_field_test (k * unat w) s (mark_layers w n i b)
               \<longleftrightarrow> (?x AND ?ms \<noteq> 0)"
      unfolding t if_not_P [OF False] by (rule refl)
    also have "\<dots> \<longleftrightarrow> bit_field_test (k * unat w) s b \<or> (k < n \<and> s = i)"
      unfolding t0 using False by auto
    finally show ?thesis .
  qed
qed

lemma test_grown:
  assumes len: "length b = a * unat w" and js: "unat (drop_bit 5 s) < unat w"
    and k: "k < a + d"
  shows "bit_field_test (k * unat w) s (b @ replicate (d * unat w) 0)
         \<longleftrightarrow> k < a \<and> bit_field_test (k * unat w) s b"
proof (cases "k < a")
  case True
  then have "Suc k \<le> a" by simp
  then have "Suc k * unat w \<le> a * unat w" by (rule mult_le_mono1)
  with js len have "k * unat w + unat (drop_bit 5 s) < length b" by simp
  with True show ?thesis by (simp add: bit_field_test_def nth_append)
next
  case False
  then have "a \<le> k" by simp
  then have "a * unat w \<le> k * unat w" by (rule mult_le_mono1)
  with len have 1: "\<not> k * unat w + unat (drop_bit 5 s) < length b" by linarith
  from k have "Suc k \<le> a + d" by simp
  then have "Suc k * unat w \<le> (a + d) * unat w" by (rule mult_le_mono1)
  with js len have "k * unat w + unat (drop_bit 5 s) - length b < d * unat w"
    using 1 by (simp add: add_mult_distrib)
  with 1 False show ?thesis by (simp add: bit_field_test_def nth_append)
qed

lemma buffer_ok_length:
  "buffer_ok st \<Longrightarrow>
   length (old_out st) = unat (n_spike_buffers_allocated st) * unat (n_spike_buffer_words st)"
  by (auto simp: buffer_ok_def old_out_def split: option.splits)

lemma grow_spikes_result:
  assumes ok: "buffer_ok st"
    and fits: "8 + 4 * (unat n * unat (n_spike_buffer_words st)) < 2 ^ 32"
    and more: "n_spike_buffers_allocated st < n"
    and malloc: "spin1_malloc lib (8 + n * spike_buffer_size st)"
  shows "grow_spikes lib n st =
     Inr (st\<lparr>spikes := Some \<lparr>spikes_time = old_time st, n_buffers = old_n_buffers st,
               out_spikes = old_out st @ replicate
                 ((unat n - unat (n_spike_buffers_allocated st)) * unat (n_spike_buffer_words st))
                 0\<rparr>,
            n_spike_buffers_allocated := n,
            calls := calls st @ Spin1_malloc (8 + n * spike_buffer_size st)
                       # (case spikes st of None \<Rightarrow> [] | Some old \<Rightarrow> [Sark_free])\<rparr>)"
proof -
  let ?w = "unat (n_spike_buffer_words st)" and ?a = "unat (n_spike_buffers_allocated st)"
  from ok have sz: "unat (spike_buffer_size st) = 4 * ?w"
    and bound: "8 + 4 * (?a * ?w) < 2 ^ 32" by (simp_all add: buffer_ok_def)
  have "unat n * unat (spike_buffer_size st) = 4 * (unat n * ?w)" by (simp add: sz)
  with fits have "8 + unat n * unat (spike_buffer_size st) < 2 ^ 32" by linarith
  then have "unat (8 + n * spike_buffer_size st) = 8 + unat n * unat (spike_buffer_size st)"
    by (rule unat_buffer_bytes)
  then have new: "unat (drop_bit 2 (8 + n * spike_buffer_size st)) - 2 = unat n * ?w"
    by (simp add: unat_drop_bit_2 sz)
  have "?a * unat (spike_buffer_size st) = 4 * (?a * ?w)" by (simp add: sz)
  with bound have "8 + ?a * unat (spike_buffer_size st) < 2 ^ 32" by linarith
  then have "unat (8 + n_spike_buffers_allocated st * spike_buffer_size st)
             = 8 + ?a * unat (spike_buffer_size st)"
    by (rule unat_buffer_bytes)
  then have old: "(unat (8 + n_spike_buffers_allocated st * spike_buffer_size st) - 8) div 4
                  = ?a * ?w"
    by (simp add: sz)
  from more have le: "?a \<le> unat n" by (simp add: word_less_nat_alt)
  have d: "unat n * ?w - ?a * ?w = (unat n - ?a) * ?w" by (simp add: diff_mult_distrib)
  show ?thesis
  proof (cases "spikes st")
    case None
    with ok have "n_spike_buffers_allocated st = 0" by (simp add: buffer_ok_def)
    with None malloc show ?thesis
      by (simp add: grow_spikes_def Let_def call_def new old_out_def old_time_def
          old_n_buffers_def)
  next
    case (Some sp)
    with ok have len: "length (out_spikes sp) = ?a * ?w" by (simp add: buffer_ok_def)
    have "take (?a * ?w) (out_spikes sp) @ drop (?a * ?w) (replicate (unat n * ?w) 0)
          = out_spikes sp @ replicate ((unat n - ?a) * ?w) 0"
      using len by (simp add: d)
    with Some malloc show ?thesis
      by (simp add: grow_spikes_def Let_def call_def new old old_out_def old_time_def
          old_n_buffers_def)
  qed
qed

lemma mark_spike_result:
  assumes flags: "recording_flags st > 0"
    and count: "n > 0"
    and ok: "buffer_ok st"
    and fits: "8 + 4 * (unat n * unat (n_spike_buffer_words st)) < 2 ^ 32"
    and malloc: "n_spike_buffers_allocated st < n
                 \<longrightarrow> spin1_malloc lib (8 + n * spike_buffer_size st)"
  shows "mark_spike lib i n st =
     Inr (st\<lparr>spikes := Some \<lparr>spikes_time = old_time st,
               n_buffers = max (old_n_buffers st) n,
               out_spikes = mark_layers (n_spike_buffer_words st) (unat n) i
                 (old_out st @ replicate
                   ((unat n - unat (n_spike_buffers_allocated st))
                      * unat (n_spike_buffer_words st)) 0)\<rparr>,
            n_spike_buffers_allocated := max (n_spike_buffers_allocated st) n,
            calls := calls st @
              (if n_spike_buffers_allocated st < n
               then Spin1_malloc (8 + n * spike_buffer_size st)
                      # (case spikes st of None \<Rightarrow> [] | Some old \<Rightarrow> [Sark_free])
               else [])\<rparr>)"
proof (cases "n_spike_buffers_allocated st < n")
  case True
  with malloc have m: "spin1_malloc lib (8 + n * spike_buffer_size st)" by simp
  from True have mx: "max (n_spike_buffers_allocated st) n = n" by simp
  show ?thesis
    unfolding mark_spike_def grow_spikes_result [OF ok fits True m] mx
    using flags True by (simp add: Let_def max_def)
next
  case False
  then have le: "n \<le> n_spike_buffers_allocated st" by simp
  then have mx: "max (n_spike_buffers_allocated st) n = n_spike_buffers_allocated st" by simp
  from le have "unat n \<le> unat (n_spike_buffers_allocated st)" by (simp add: word_le_nat_alt)
  then have z: "unat n - unat (n_spike_buffers_allocated st) = 0" by simp
  from le count have "n_spike_buffers_allocated st \<noteq> 0" by auto
  with ok obtain sp where sp: "spikes st = Some sp"
    by (auto simp: buffer_ok_def split: option.splits)
  show ?thesis
    unfolding mark_spike_def mx z
    using flags False sp
    by (simp add: Let_def max_def old_out_def old_time_def old_n_buffers_def)
qed

lemma source_word_less:
  fixes s :: uint32_t
  shows "unat s < 32 * u \<Longrightarrow> unat (drop_bit 5 s) < u"
  by (simp add: unat_drop_bit_5 less_mult_imp_div_less mult.commute)

lemma layer_bit_old:
  assumes ok: "buffer_ok st"
  shows "layer_bit st k s \<longleftrightarrow>
         k < unat (n_spike_buffers_allocated st)
         \<and> bit_field_test (k * unat (n_spike_buffer_words st)) s (old_out st)"
proof (cases "k < unat (n_spike_buffers_allocated st)")
  case False
  then show ?thesis by (simp add: layer_bit_def split: option.splits)
next
  case True
  let ?w = "unat (n_spike_buffer_words st)" and ?a = "unat (n_spike_buffers_allocated st)"
  from ok have "8 + 4 * (?a * ?w) < 2 ^ 32" by (simp add: buffer_ok_def)
  moreover from True have "k * ?w \<le> ?a * ?w" by (simp add: mult_le_mono1)
  ultimately have "k * ?w < 2 ^ 32" by linarith
  then have o: "out_spikes_offset (n_spike_buffer_words st) (of_nat k) = k * ?w"
    by (rule unat_layer_offset)
  from True have "n_spike_buffers_allocated st \<noteq> 0" by auto
  with ok obtain sp where "spikes st = Some sp"
    by (auto simp: buffer_ok_def split: option.splits)
  with True o show ?thesis by (simp add: layer_bit_def old_out_def)
qed

lemma drop_zero_nth:
  assumes "list_all (\<lambda>x. x = 0) (drop j l)" and "j \<le> p" and "p < length l"
  shows "l ! p = (0 :: uint32_t)"
proof -
  from assms(2,3) have "l ! p = drop j l ! (p - j)" by simp
  moreover from assms(2,3) have "p - j < length (drop j l)" by simp
  ultimately show ?thesis using assms(1) by (simp add: list_all_length)
qed

lemma mark_spike_properties:
  assumes flags: "recording_flags st > 0"
    and count: "n > 0"
    and ok: "buffer_ok st"
    and fits: "8 + 4 * (unat n * unat (n_spike_buffer_words st)) < 2 ^ 32"
    and src: "unat i < 32 * unat (n_spike_buffer_words st)"
    and ret: "mark_spike lib i n st = Inr st'"
  shows "buffer_ok st'"
    and "\<And>k s. unat s < 32 * unat (n_spike_buffer_words st) \<Longrightarrow>
           layer_bit st' k s \<longleftrightarrow> layer_bit st k s \<or> (s = i \<and> k < unat n)"
    and "upper_layers_zero st \<Longrightarrow> upper_layers_zero st'"
    and "st' = st\<lparr>spikes := spikes st',
            n_spike_buffers_allocated := max (n_spike_buffers_allocated st) n,
            calls := calls st @
              (if n_spike_buffers_allocated st < n
               then Spin1_malloc (8 + n * spike_buffer_size st)
                      # (case spikes st of None \<Rightarrow> [] | Some old \<Rightarrow> [Sark_free])
               else [])\<rparr>"
    and "\<exists>sp'. spikes st' = Some sp' \<and> n_buffers sp' = max (old_n_buffers st) n
           \<and> length (out_spikes sp')
              = unat (max (n_spike_buffers_allocated st) n) * unat (n_spike_buffer_words st)"
proof -
  let ?w = "n_spike_buffer_words st" and ?a = "n_spike_buffers_allocated st"
  let ?A = "max (unat ?a) (unat n)"
  define b1 where "b1 = old_out st @ replicate ((unat n - unat ?a) * unat ?w) 0"
  define b2 where "b2 = mark_layers ?w (unat n) i b1"
  have malloc: "?a < n \<longrightarrow> spin1_malloc lib (8 + n * spike_buffer_size st)"
    using ret flags by (auto simp: mark_spike_def grow_spikes_def Let_def split: if_splits)
  note r = mark_spike_result [OF flags count ok fits malloc, of i]
  with ret have st': "st' = st\<lparr>spikes := Some \<lparr>spikes_time = old_time st,
               n_buffers = max (old_n_buffers st) n, out_spikes = b2\<rparr>,
            n_spike_buffers_allocated := max ?a n,
            calls := calls st @
              (if ?a < n
               then Spin1_malloc (8 + n * spike_buffer_size st)
                      # (case spikes st of None \<Rightarrow> [] | Some old \<Rightarrow> [Sark_free])
               else [])\<rparr>" by (simp add: b1_def b2_def)
  have A: "unat (max ?a n) = ?A" by (simp add: max_def word_le_nat_alt)
  from ok have bound: "8 + 4 * (unat ?a * unat ?w) < 2 ^ 32"
    and sz: "unat (spike_buffer_size st) = 4 * unat ?w"
    and nb: "old_n_buffers st \<le> ?a"
    by (auto simp: buffer_ok_def old_n_buffers_def split: option.splits)
  have boundA: "8 + 4 * (?A * unat ?w) < 2 ^ 32"
  proof (cases "unat ?a \<le> unat n")
    case True
    then have "?A = unat n" by simp
    with fits show ?thesis by simp
  next
    case False
    then have "?A = unat ?a" by simp
    with bound show ?thesis by simp
  qed
  then have boundA': "?A * unat ?w < 2 ^ 32" by linarith
  have len0: "length (old_out st) = unat ?a * unat ?w" by (rule buffer_ok_length [OF ok])
  have "unat ?a + (unat n - unat ?a) = ?A" by (simp add: max_def)
  then have "unat ?a * unat ?w + (unat n - unat ?a) * unat ?w = ?A * unat ?w"
    by (simp flip: add_mult_distrib)
  with len0 have len1: "length b1 = ?A * unat ?w" by (simp add: b1_def)
  then have len2: "length b2 = ?A * unat ?w" by (simp add: b2_def)
  have ji: "unat (drop_bit 5 i) < unat ?w" by (rule source_word_less [OF src])
  show e: "st' = st\<lparr>spikes := spikes st',
            n_spike_buffers_allocated := max ?a n,
            calls := calls st @
              (if ?a < n
               then Spin1_malloc (8 + n * spike_buffer_size st)
                      # (case spikes st of None \<Rightarrow> [] | Some old \<Rightarrow> [Sark_free])
               else [])\<rparr>"
    by (subst (1 2) st') simp
  show "\<exists>sp'. spikes st' = Some sp' \<and> n_buffers sp' = max (old_n_buffers st) n
           \<and> length (out_spikes sp') = unat (max ?a n) * unat ?w"
    by (simp add: st' len2 A)
  from nb have "max (old_n_buffers st) n \<le> max ?a n" by (auto simp: max_def)
  with boundA sz len2 show "buffer_ok st'"
    by (simp add: st' buffer_ok_def A)
  show "layer_bit st' k s \<longleftrightarrow> layer_bit st k s \<or> (s = i \<and> k < unat n)"
    if s: "unat s < 32 * unat ?w" for k s
  proof (cases "k < ?A")
    case False
    then have "\<not> layer_bit st' k s" by (simp add: st' layer_bit_def A)
    moreover from False have ka: "\<not> k < unat ?a" and kn: "\<not> k < unat n" by simp_all
    from ka have "\<not> layer_bit st k s" by (simp add: layer_bit_old [OF ok])
    ultimately show ?thesis using kn by simp
  next
    case True
    have js: "unat (drop_bit 5 s) < unat ?w" by (rule source_word_less [OF s])
    from True have "k * unat ?w \<le> ?A * unat ?w" by (simp add: mult_le_mono1)
    with boundA' have "k * unat ?w < 2 ^ 32" by linarith
    then have o: "out_spikes_offset ?w (of_nat k) = k * unat ?w" by (rule unat_layer_offset)
    from True o have "layer_bit st' k s \<longleftrightarrow> bit_field_test (k * unat ?w) s b2"
      by (simp add: st' layer_bit_def A)
    also have "\<dots> \<longleftrightarrow> bit_field_test (k * unat ?w) s b1 \<or> (k < unat n \<and> s = i)"
      unfolding b2_def by (rule test_mark_layers [OF len1 boundA' _ True js ji]) simp
    also have "bit_field_test (k * unat ?w) s b1
               \<longleftrightarrow> k < unat ?a \<and> bit_field_test (k * unat ?w) s (old_out st)"
      unfolding b1_def
      by (rule test_grown [OF len0 js]) (use True in \<open>simp add: max_def split: if_splits\<close>)
    also have "\<dots> \<longleftrightarrow> layer_bit st k s" by (simp add: layer_bit_old [OF ok])
    finally show ?thesis by blast
  qed
  show "upper_layers_zero st'" if z: "upper_layers_zero st"
  proof -
    let ?m = "unat (max (old_n_buffers st) n) * unat ?w"
    have m: "unat (max (old_n_buffers st) n) = max (unat (old_n_buffers st)) (unat n)"
      by (simp add: max_def word_le_nat_alt)
    have "(drop ?m b2) ! q = 0" if q: "q < length (drop ?m b2)" for q
    proof -
      from q len1 len2 have p: "?m + q < length b1" by simp
      from m have "unat n \<le> unat (max (old_n_buffers st) n)" by simp
      then have "unat n * unat ?w \<le> ?m" by (rule mult_le_mono1)
      have no: "\<not> (\<exists>k<unat n. ?m + q = k * unat ?w + unat (drop_bit 5 i))"
      proof
        assume "\<exists>k<unat n. ?m + q = k * unat ?w + unat (drop_bit 5 i)"
        then obtain k where k: "k < unat n" "?m + q = k * unat ?w + unat (drop_bit 5 i)" by blast
        from k(1) have "Suc k \<le> unat n" by simp
        then have "Suc k * unat ?w \<le> unat n * unat ?w" by (rule mult_le_mono1)
        with ji have "k * unat ?w + unat (drop_bit 5 i) < unat n * unat ?w" by simp
        with k(2) \<open>unat n * unat ?w \<le> ?m\<close> show False by linarith
      qed
      from fits have "unat n * unat ?w < 2 ^ 32" by linarith
      from nth_mark_layers [OF p this ji] no have 1: "b2 ! (?m + q) = b1 ! (?m + q)"
        unfolding b2_def by (simp only: if_False)
      have 2: "b1 ! (?m + q) = 0"
      proof (cases "?m + q < length (old_out st)")
        case False
        with p show ?thesis by (simp add: nth_append b1_def)
      next
        case True
        show ?thesis
        proof (cases "spikes st")
          case None
          with True show ?thesis by (simp add: old_out_def)
        next
          case (Some sp)
          from m have "unat (old_n_buffers st) \<le> unat (max (old_n_buffers st) n)" by simp
          moreover from Some have "old_n_buffers st = n_buffers sp"
            by (simp add: old_n_buffers_def)
          ultimately have "unat (n_buffers sp) \<le> unat (max (old_n_buffers st) n)" by simp
          then have le: "unat (n_buffers sp) * unat ?w \<le> ?m" by (rule mult_le_mono1)
          from z Some have za: "list_all (\<lambda>x. x = 0)
              (drop (unat (n_buffers sp) * unat ?w) (out_spikes sp))"
            by (simp add: upper_layers_zero_def)
          from le have jp: "unat (n_buffers sp) * unat ?w \<le> ?m + q" by linarith
          from True Some have pl: "?m + q < length (out_spikes sp)" by (simp add: old_out_def)
          from drop_zero_nth [OF za jp pl] have "out_spikes sp ! (?m + q) = 0" .
          with pl Some show ?thesis by (simp add: nth_append old_out_def b1_def)
        qed
      qed
      from q 1 2 show ?thesis by simp
    qed
    then show ?thesis by (simp add: st' upper_layers_zero_def list_all_length)
  qed
qed

lemma buffer_part_cong:
  assumes "buffer_part a = buffer_part b"
  shows "buffer_ok a = buffer_ok b" and "layer_bit a = layer_bit b"
    and "upper_layers_zero a = upper_layers_zero b"
    and "n_spike_buffer_words a = n_spike_buffer_words b"
    and "recording_flags a = recording_flags b"
proof -
  from assms have e: "spikes a = spikes b"
    "n_spike_buffers_allocated a = n_spike_buffers_allocated b"
    "n_spike_buffer_words a = n_spike_buffer_words b"
    "spike_buffer_size a = spike_buffer_size b"
    "recording_flags a = recording_flags b"
    by (simp_all add: buffer_part_def)
  show "buffer_ok a = buffer_ok b" unfolding buffer_ok_def e ..
  show "layer_bit a = layer_bit b" unfolding layer_bit_def fun_eq_iff e by simp
  show "upper_layers_zero a = upper_layers_zero b" unfolding upper_layers_zero_def e ..
  show "n_spike_buffer_words a = n_spike_buffer_words b" by (rule e)
  show "recording_flags a = recording_flags b" by (rule e)
qed

lemma buffer_part_simps [simp]:
  "buffer_part (send_spike k st) = buffer_part st"
  "buffer_part (set_seed sd st) = buffer_part st"
  "buffer_part (update_source s f st) = buffer_part st"
  "buffer_part (call c st) = buffer_part st"
  by (simp_all add: buffer_part_def send_spike_def set_seed_def update_source_def call_def)

lemma buffer_part_send_spikes [simp]:
  "buffer_part (send_spikes n k st) = buffer_part st"
  by (induction n arbitrary: st) simp_all

lemma buffer_part_fast [simp]:
  "buffer_part (snd (fast_spike_source_get_num_spikes lib e st)) = buffer_part st"
  by (simp add: fast_spike_source_get_num_spikes_def split_beta)

lemma buffer_part_slow_draw [simp]:
  "buffer_part (snd (slow_spike_source_get_time_to_spike lib m st)) = buffer_part st"
  by (simp add: slow_spike_source_get_time_to_spike_def split_beta)

lemma slow_spike_marks:
  assumes "slow_spike lib s st = Inr st'"
  shows "\<exists>st2. mark_spike lib (of_nat s) 1 st = Inr st2 \<and> buffer_part st' = buffer_part st2"
  using assms
  by (auto simp: slow_spike_def Let_def split_beta split: sum.splits)

lemma source_tick_marks:
  assumes "source_tick lib s st = Inr (c, st')"
  shows "(c = 0 \<and> buffer_part st' = buffer_part st)
         \<or> (c > 0 \<and> (\<exists>st1 st2. buffer_part st1 = buffer_part st
                \<and> mark_spike lib (of_nat s) c st1 = Inr st2
                \<and> buffer_part st' = buffer_part st2))"
proof (cases "is_fast_source (spike_source_array st ! s)")
  case fast: True
  show ?thesis
  proof (cases "time st \<ge> start_ticks (spike_source_array st ! s)
                \<and> time st < end_ticks (spike_source_array st ! s)")
    case False
    with assms fast show ?thesis by (auto simp: source_tick_def)
  next
    case True
    obtain k st1 where f: "fast_spike_source_get_num_spikes lib
        (exp_minus_lambda (spike_source_array st ! s)) st = (k, st1)" by fastforce
    have b1: "buffer_part st1 = buffer_part st"
      using buffer_part_fast [of lib "exp_minus_lambda (spike_source_array st ! s)" st] f
      by simp
    show ?thesis
    proof (cases "k > 0")
      case False
      with assms fast True f b1 show ?thesis by (auto simp: source_tick_def)
    next
      case k: True
      with assms fast True f obtain st2 where m: "mark_spike lib (of_nat s) k st1 = Inr st2"
        by (auto simp: source_tick_def split: sum.splits)
      from assms fast True f k m have "c = k" and "buffer_part st' = buffer_part st2"
        by (auto simp: source_tick_def Let_def split: if_splits)
      with k b1 m show ?thesis by blast
    qed
  qed
next
  case slow: False
  show ?thesis
  proof (cases "time st \<ge> start_ticks (spike_source_array st ! s)
                \<and> time st < end_ticks (spike_source_array st ! s)
                \<and> mean_isi_ticks (spike_source_array st ! s) \<noteq> 0")
    case False
    with assms slow show ?thesis by (auto simp: source_tick_def)
  next
    case True
    show ?thesis
    proof (cases "sint (time_to_spike_ticks (spike_source_array st ! s)) \<le> 0")
      case False
      with assms slow True show ?thesis by (auto simp: source_tick_def)
    next
      case c: True
      with assms slow True obtain stA where 1: "slow_spike lib s st = Inr stA"
        and 2: "c = 1" and 3: "buffer_part st' = buffer_part stA"
        by (auto simp: source_tick_def split: sum.splits)
      from slow_spike_marks [OF 1] obtain st2 where
        "mark_spike lib (of_nat s) 1 st = Inr st2" "buffer_part stA = buffer_part st2" by blast
      with 2 3 show ?thesis by auto
    qed
  qed
qed

lemma source_tick_layers:
  assumes flags: "recording_flags st > 0"
    and ok: "buffer_ok st"
    and src: "s < 32 * unat (n_spike_buffer_words st)" and s32: "s < 2 ^ 32"
    and ret: "source_tick lib s st = Inr (c, st')"
    and fits: "8 + 4 * (unat c * unat (n_spike_buffer_words st)) < 2 ^ 32"
  shows "buffer_ok st'"
    and "n_spike_buffer_words st' = n_spike_buffer_words st"
    and "recording_flags st' = recording_flags st"
    and "\<And>k x. unat x < 32 * unat (n_spike_buffer_words st) \<Longrightarrow>
           layer_bit st' k x \<longleftrightarrow> layer_bit st k x \<or> (x = of_nat s \<and> k < unat c)"
    and "upper_layers_zero st \<Longrightarrow> upper_layers_zero st'"
proof -
  from s32 have us: "unat (of_nat s :: uint32_t) = s" by (simp add: unat_of_nat)
  from source_tick_marks [OF ret]
  consider (none) "c = 0" "buffer_part st' = buffer_part st"
    | (some) st1 st2 where "c > 0" "buffer_part st1 = buffer_part st"
        "mark_spike lib (of_nat s) c st1 = Inr st2" "buffer_part st' = buffer_part st2"
    by blast
  then have "buffer_ok st' \<and> n_spike_buffer_words st' = n_spike_buffer_words st
    \<and> recording_flags st' = recording_flags st
    \<and> (\<forall>k x. unat x < 32 * unat (n_spike_buffer_words st) \<longrightarrow>
           (layer_bit st' k x \<longleftrightarrow> layer_bit st k x \<or> (x = of_nat s \<and> k < unat c)))
    \<and> (upper_layers_zero st \<longrightarrow> upper_layers_zero st')"
  proof cases
    case none
    from buffer_part_cong [OF none(2)] ok none(1) show ?thesis by simp
  next
    case some
    note c1 = buffer_part_cong [OF some(2)]
    note c2 = buffer_part_cong [OF some(4)]
    from flags c1 have f1: "recording_flags st1 > 0" by simp
    from ok c1 have ok1: "buffer_ok st1" by simp
    from fits c1 have fits1: "8 + 4 * (unat c * unat (n_spike_buffer_words st1)) < 2 ^ 32"
      by simp
    from src us c1 have src1: "unat (of_nat s :: uint32_t) < 32 * unat (n_spike_buffer_words st1)"
      by simp
    note p = mark_spike_properties [OF f1 some(1) ok1 fits1 src1 some(3)]
    from arg_cong [OF p(4), of n_spike_buffer_words] have w2:
      "n_spike_buffer_words st2 = n_spike_buffer_words st1" by simp
    from arg_cong [OF p(4), of recording_flags] have r2:
      "recording_flags st2 = recording_flags st1" by simp
    have "layer_bit st' k x \<longleftrightarrow> layer_bit st k x \<or> (x = of_nat s \<and> k < unat c)"
      if "unat x < 32 * unat (n_spike_buffer_words st)" for k x
      using p(2) [of x k] that c1 c2 by simp
    with p(1) p(3) c1 c2 w2 r2 show ?thesis by simp
  qed
  then show "buffer_ok st'"
    and "n_spike_buffer_words st' = n_spike_buffer_words st"
    and "recording_flags st' = recording_flags st"
    and "\<And>k x. unat x < 32 * unat (n_spike_buffer_words st) \<Longrightarrow>
           layer_bit st' k x \<longleftrightarrow> layer_bit st k x \<or> (x = of_nat s \<and> k < unat c)"
    and "upper_layers_zero st \<Longrightarrow> upper_layers_zero st'"
    by blast+
qed

lemma sweep_layers:
  assumes "recording_flags st > 0" and "buffer_ok st"
    and "\<forall>s \<in> set ss. s < 32 * unat (n_spike_buffer_words st) \<and> s < 2 ^ 32"
    and "sweep lib ss st = Inr (ns, st')"
    and "\<forall>c \<in> set ns. 8 + 4 * (unat c * unat (n_spike_buffer_words st)) < 2 ^ 32"
  shows "buffer_ok st' \<and> length ns = length ss
    \<and> (\<forall>k x. unat x < 32 * unat (n_spike_buffer_words st) \<longrightarrow>
           (layer_bit st' k x \<longleftrightarrow>
              layer_bit st k x \<or> (\<exists>j<length ss. x = of_nat (ss ! j) \<and> k < unat (ns ! j))))
    \<and> (upper_layers_zero st \<longrightarrow> upper_layers_zero st')"
  using assms
proof (induction ss arbitrary: st ns)
  case Nil
  then show ?case by simp
next
  case (Cons s ss)
  from Cons.prems(4) obtain c st1 ns1 where 1: "source_tick lib s st = Inr (c, st1)"
    and 2: "sweep lib ss st1 = Inr (ns1, st')" and 3: "ns = c # ns1"
    by (auto split: sum.splits)
  from Cons.prems(3) have s: "s < 32 * unat (n_spike_buffer_words st)" "s < 2 ^ 32" by simp_all
  from Cons.prems(5) 3 have fc: "8 + 4 * (unat c * unat (n_spike_buffer_words st)) < 2 ^ 32"
    by simp
  note t = source_tick_layers [OF Cons.prems(1) Cons.prems(2) s 1 fc]
  from Cons.prems(1) t(3) have f1: "recording_flags st1 > 0" by simp
  from Cons.prems(3) t(2) have ss1:
    "\<forall>s \<in> set ss. s < 32 * unat (n_spike_buffer_words st1) \<and> s < 2 ^ 32" by simp
  from Cons.prems(5) 3 t(2) have fs1:
    "\<forall>c \<in> set ns1. 8 + 4 * (unat c * unat (n_spike_buffer_words st1)) < 2 ^ 32" by simp
  note ih = Cons.IH [OF f1 t(1) ss1 2 fs1]
  have "layer_bit st' k x \<longleftrightarrow>
          layer_bit st k x
          \<or> (\<exists>j<length (s # ss). x = of_nat ((s # ss) ! j) \<and> k < unat (ns ! j))"
    if x: "unat x < 32 * unat (n_spike_buffer_words st)" for k x
  proof -
    from ih x t(2) have "layer_bit st' k x \<longleftrightarrow>
        layer_bit st1 k x \<or> (\<exists>j<length ss. x = of_nat (ss ! j) \<and> k < unat (ns1 ! j))"
      by simp
    also have "layer_bit st1 k x \<longleftrightarrow> layer_bit st k x \<or> (x = of_nat s \<and> k < unat c)"
      by (rule t(4) [OF x])
    finally show ?thesis
      unfolding 3 by (auto simp: less_Suc_eq_0_disj)
  qed
  with ih t(5) 3 show ?case by simp
qed

lemma clean_no_bits:
  assumes ok: "buffer_ok st" and clean: "buffer_clean st"
    and x: "unat x < 32 * unat (n_spike_buffer_words st)"
  shows "\<not> layer_bit st k x"
proof (cases "k < unat (n_spike_buffers_allocated st)")
  case False
  then show ?thesis by (simp add: layer_bit_old [OF ok])
next
  case True
  let ?w = "unat (n_spike_buffer_words st)"
  have js: "unat (drop_bit 5 x) < ?w" by (rule source_word_less [OF x])
  from True have "Suc k \<le> unat (n_spike_buffers_allocated st)" by simp
  then have "Suc k * ?w \<le> unat (n_spike_buffers_allocated st) * ?w" by (rule mult_le_mono1)
  with js have p: "k * ?w + unat (drop_bit 5 x) < length (old_out st)"
    by (simp add: buffer_ok_length [OF ok])
  from clean have "list_all (\<lambda>x. x = 0) (drop 0 (old_out st))"
    by (simp add: buffer_clean_def old_out_def split: option.splits)
  from drop_zero_nth [OF this _ p] have "old_out st ! (k * ?w + unat (drop_bit 5 x)) = 0"
    by simp
  with p have "\<not> bit_field_test (k * ?w) x (old_out st)" by (rule bit_field_test_zero)
  then show ?thesis by (simp add: layer_bit_old [OF ok])
qed

lemma sweep_fidelity:
  assumes flags: "recording_flags st > 0" and ok: "buffer_ok st" and clean: "buffer_clean st"
    and width: "unat (n_spike_sources (parameters st)) \<le> 32 * unat (n_spike_buffer_words st)"
    and ret: "sweep lib [0..<unat (n_spike_sources (parameters st))] st = Inr (ns, st')"
    and fits: "\<forall>c \<in> set ns. 8 + 4 * (unat c * unat (n_spike_buffer_words st)) < 2 ^ 32"
    and s: "s < unat (n_spike_sources (parameters st))"
  shows "layer_bit st' k (of_nat s) \<longleftrightarrow> k < unat (ns ! s)"
proof -
  let ?N = "unat (n_spike_sources (parameters st))"
  have N: "?N < 2 ^ 32" using unsigned_less [of "n_spike_sources (parameters st)"] by simp
  from width N have ss: "\<forall>s \<in> set [0..<?N]. s < 32 * unat (n_spike_buffer_words st) \<and> s < 2 ^ 32"
    by auto
  note l = sweep_layers [OF flags ok ss ret fits]
  from s N have us: "unat (of_nat s :: uint32_t) = s" by (simp add: unat_of_nat)
  with s width have x: "unat (of_nat s :: uint32_t) < 32 * unat (n_spike_buffer_words st)"
    by simp
  have inj: "(of_nat s :: uint32_t) = of_nat j \<longleftrightarrow> s = j" if "j < ?N" for j
  proof
    assume "(of_nat s :: uint32_t) = of_nat j"
    then have "unat (of_nat s :: uint32_t) = unat (of_nat j :: uint32_t)" by simp
    with that N us show "s = j" by (simp add: unat_of_nat)
  qed simp
  from l x have "layer_bit st' k (of_nat s) \<longleftrightarrow>
      layer_bit st k (of_nat s)
      \<or> (\<exists>j<?N. (of_nat s :: uint32_t) = of_nat ([0..<?N] ! j) \<and> k < unat (ns ! j))"
    by simp
  also have "\<dots> \<longleftrightarrow> (\<exists>j<?N. s = j \<and> k < unat (ns ! j))"
  proof -
    have nb: "\<not> layer_bit st k (of_nat s)" by (rule clean_no_bits [OF ok clean x])
    have e: "((of_nat s :: uint32_t) = of_nat ([0..<?N] ! j) \<and> k < unat (ns ! j))
             \<longleftrightarrow> (s = j \<and> k < unat (ns ! j))" if "j < ?N" for j
      using that inj [OF that] by simp
    from nb e show ?thesis by blast
  qed
  also have "\<dots> \<longleftrightarrow> k < unat (ns ! s)" using s by auto
  finally show ?thesis .
qed

text \<open>
  C6. A call \<^verbatim>\<open>_mark_spike(i, n)\<close> with recording on and \<open>n > 0\<close>, on a well-formed
  buffer, for a source \<open>i\<close> within the width of a layer and a size that fits 32 bits: if
  \<open>n\<close> exceeds the number of layers allocated, one block of \<open>8 + n * spike_buffer_size\<close>
  bytes is allocated (the call returns when the allocation succeeds) and the buffer then
  holds exactly \<open>n\<close> layers, otherwise nothing is allocated; \<open>n_buffers\<close> becomes the
  maximum of its old value and \<open>n\<close>; and the bits set afterwards are the bits set before
  (the old contents are copied, the new layers start as zeros) together with bit \<open>i\<close> of
  layers \<open>0\<close> to \<open>n - 1\<close>. The buffer stays well-formed, with zeros from layer \<open>n_buffers\<close>
  on. Hence after the sweep of a tick that started on a clean buffer, bit \<open>s\<close> of layer
  \<open>k\<close> is set if and only if source \<open>s\<close> generated at least \<open>k + 1\<close> spikes on the tick.
\<close>

theorem mark_spike_layers:
  "(recording_flags st > 0 \<and> n > 0 \<and> buffer_ok st
      \<and> 8 + 4 * (unat n * unat (n_spike_buffer_words st)) < 2 ^ 32
      \<and> unat i < 32 * unat (n_spike_buffer_words st)
      \<and> (n_spike_buffers_allocated st < n
            \<longrightarrow> spin1_malloc lib (8 + n * spike_buffer_size st))
    \<longrightarrow> (\<exists>st1 sp1.
          mark_spike lib i n st = Inr st1
          \<and> n_spike_buffers_allocated st1 = max (n_spike_buffers_allocated st) n
          \<and> calls st1 = calls st @
                (if n_spike_buffers_allocated st < n
                 then Spin1_malloc (8 + n * spike_buffer_size st)
                        # (case spikes st of None \<Rightarrow> [] | Some old \<Rightarrow> [Sark_free])
                 else [])
          \<and> spikes st1 = Some sp1
          \<and> length (out_spikes sp1)
              = unat (max (n_spike_buffers_allocated st) n) * unat (n_spike_buffer_words st)
          \<and> n_buffers sp1 = max (old_n_buffers st) n
          \<and> (\<forall>k s. unat s < 32 * unat (n_spike_buffer_words st) \<longrightarrow>
                 (layer_bit st1 k s \<longleftrightarrow> layer_bit st k s \<or> (s = i \<and> k < unat n)))
          \<and> buffer_ok st1
          \<and> (upper_layers_zero st \<longrightarrow> upper_layers_zero st1)))
   \<and> (recording_flags st > 0 \<and> buffer_ok st \<and> buffer_clean st
      \<and> unat (n_spike_sources (parameters st)) \<le> 32 * unat (n_spike_buffer_words st)
      \<and> sweep lib [0..<unat (n_spike_sources (parameters st))] st = Inr (ns, st')
      \<and> (\<forall>c \<in> set ns. 8 + 4 * (unat c * unat (n_spike_buffer_words st)) < 2 ^ 32)
    \<longrightarrow> (\<forall>s k. s < unat (n_spike_sources (parameters st)) \<longrightarrow>
           (layer_bit st' k (of_nat s) \<longleftrightarrow> k < unat (ns ! s))))"
proof (intro conjI impI allI)
  assume h: "recording_flags st > 0 \<and> n > 0 \<and> buffer_ok st
      \<and> 8 + 4 * (unat n * unat (n_spike_buffer_words st)) < 2 ^ 32
      \<and> unat i < 32 * unat (n_spike_buffer_words st)
      \<and> (n_spike_buffers_allocated st < n
            \<longrightarrow> spin1_malloc lib (8 + n * spike_buffer_size st))"
  then have flags: "recording_flags st > 0" and count: "n > 0" and ok: "buffer_ok st"
    and fits: "8 + 4 * (unat n * unat (n_spike_buffer_words st)) < 2 ^ 32"
    and src: "unat i < 32 * unat (n_spike_buffer_words st)"
    and malloc: "n_spike_buffers_allocated st < n
                 \<longrightarrow> spin1_malloc lib (8 + n * spike_buffer_size st)"
    by simp_all
  from mark_spike_result [OF flags count ok fits malloc, of i]
  obtain st1 where r: "mark_spike lib i n st = Inr st1" by blast
  note p = mark_spike_properties [OF flags count ok fits src r]
  from p(5) obtain sp1 where sp1: "spikes st1 = Some sp1"
    "n_buffers sp1 = max (old_n_buffers st) n"
    "length (out_spikes sp1)
       = unat (max (n_spike_buffers_allocated st) n) * unat (n_spike_buffer_words st)"
    by blast
  from arg_cong [OF p(4), of n_spike_buffers_allocated]
  have a: "n_spike_buffers_allocated st1 = max (n_spike_buffers_allocated st) n" by simp
  from arg_cong [OF p(4), of calls]
  have c: "calls st1 = calls st @
                (if n_spike_buffers_allocated st < n
                 then Spin1_malloc (8 + n * spike_buffer_size st)
                        # (case spikes st of None \<Rightarrow> [] | Some old \<Rightarrow> [Sark_free])
                 else [])" by simp
  from r a c sp1 p(1) p(2) p(3)
  show "\<exists>st1 sp1.
          mark_spike lib i n st = Inr st1
          \<and> n_spike_buffers_allocated st1 = max (n_spike_buffers_allocated st) n
          \<and> calls st1 = calls st @
                (if n_spike_buffers_allocated st < n
                 then Spin1_malloc (8 + n * spike_buffer_size st)
                        # (case spikes st of None \<Rightarrow> [] | Some old \<Rightarrow> [Sark_free])
                 else [])
          \<and> spikes st1 = Some sp1
          \<and> length (out_spikes sp1)
              = unat (max (n_spike_buffers_allocated st) n) * unat (n_spike_buffer_words st)
          \<and> n_buffers sp1 = max (old_n_buffers st) n
          \<and> (\<forall>k s. unat s < 32 * unat (n_spike_buffer_words st) \<longrightarrow>
                 (layer_bit st1 k s \<longleftrightarrow> layer_bit st k s \<or> (s = i \<and> k < unat n)))
          \<and> buffer_ok st1
          \<and> (upper_layers_zero st \<longrightarrow> upper_layers_zero st1)"
    by blast
next
  fix s k
  assume h: "recording_flags st > 0 \<and> buffer_ok st \<and> buffer_clean st
      \<and> unat (n_spike_sources (parameters st)) \<le> 32 * unat (n_spike_buffer_words st)
      \<and> sweep lib [0..<unat (n_spike_sources (parameters st))] st = Inr (ns, st')
      \<and> (\<forall>c \<in> set ns. 8 + 4 * (unat c * unat (n_spike_buffer_words st)) < 2 ^ 32)"
    and s: "s < unat (n_spike_sources (parameters st))"
  from h have flags: "recording_flags st > 0" and ok: "buffer_ok st"
    and clean: "buffer_clean st"
    and width: "unat (n_spike_sources (parameters st)) \<le> 32 * unat (n_spike_buffer_words st)"
    and ret: "sweep lib [0..<unat (n_spike_sources (parameters st))] st = Inr (ns, st')"
    and fits: "\<forall>c \<in> set ns. 8 + 4 * (unat c * unat (n_spike_buffer_words st)) < 2 ^ 32"
    by simp_all
  show "layer_bit st' k (of_nat s) \<longleftrightarrow> k < unat (ns ! s)"
    by (rule sweep_fidelity [OF flags ok clean width ret fits s])
qed

theorem mark_spike_layers_witness:
  "(\<exists>st1. mark_spike example_library 2 4 example_recorded = Inr st1
       \<and> n_spike_buffers_allocated st1 = 4
       \<and> calls st1 = [Spin1_malloc 24, Sark_free]
       \<and> (\<exists>sp1. spikes st1 = Some sp1 \<and> length (out_spikes sp1) = 4 \<and> n_buffers sp1 = 4)
       \<and> layer_bit st1 3 2 \<and> layer_bit st1 0 2
       \<and> (layer_bit st1 1 1 \<longleftrightarrow> layer_bit example_recorded 1 1)
       \<and> (layer_bit st1 2 0 \<longleftrightarrow> layer_bit example_recorded 2 0))
   \<and> (\<exists>ns st'. sweep example_library [0..<unat (n_spike_sources (parameters example_state))]
                  example_state = Inr (ns, st')
       \<and> ns = [1, 2, 0]
       \<and> layer_bit st' 0 0 \<and> \<not> layer_bit st' 1 0
       \<and> layer_bit st' 0 1 \<and> layer_bit st' 1 1 \<and> \<not> layer_bit st' 2 1
       \<and> \<not> layer_bit st' 0 2)"
proof -
  let ?N = "unat (n_spike_sources (parameters example_state))"
  have "(case sweep example_library [0..<?N] example_state of
           Inr (ns, st') \<Rightarrow> ns = [1, 2, 0] | Inl e \<Rightarrow> False)" by code_simp
  then obtain ns st' where r: "sweep example_library [0..<?N] example_state = Inr (ns, st')"
    and ns: "ns = [1, 2, 0]"
    by (cases "sweep example_library [0..<?N] example_state") auto
  have a: "recording_flags example_recorded > 0 \<and> (4 :: uint32_t) > 0
      \<and> buffer_ok example_recorded
      \<and> 8 + 4 * (unat (4 :: uint32_t) * unat (n_spike_buffer_words example_recorded)) < 2 ^ 32
      \<and> unat (2 :: uint32_t) < 32 * unat (n_spike_buffer_words example_recorded)
      \<and> (n_spike_buffers_allocated example_recorded < 4
            \<longrightarrow> spin1_malloc example_library (8 + 4 * spike_buffer_size example_recorded))"
    by (simp add: example_recorded_def buffer_ok_def example_library_def)
  have b: "recording_flags example_state > 0 \<and> buffer_ok example_state
      \<and> buffer_clean example_state
      \<and> ?N \<le> 32 * unat (n_spike_buffer_words example_state)
      \<and> sweep example_library [0..<?N] example_state = Inr (ns, st')
      \<and> (\<forall>c \<in> set ns. 8 + 4 * (unat c * unat (n_spike_buffer_words example_state)) < 2 ^ 32)"
    using r ns
    by (simp add: example_state_def example_parameters_def buffer_ok_def buffer_clean_def)
  from mark_spike_layers [of example_recorded 4 2 example_library ns st'] a
  obtain st1 sp1 where 1: "mark_spike example_library 2 4 example_recorded = Inr st1"
    "n_spike_buffers_allocated st1 = max (n_spike_buffers_allocated example_recorded) 4"
    "calls st1 = calls example_recorded @
                (if n_spike_buffers_allocated example_recorded < 4
                 then Spin1_malloc (8 + 4 * spike_buffer_size example_recorded)
                        # (case spikes example_recorded of None \<Rightarrow> []
                           | Some old \<Rightarrow> [Sark_free])
                 else [])"
    "spikes st1 = Some sp1"
    "length (out_spikes sp1)
       = unat (max (n_spike_buffers_allocated example_recorded) 4)
         * unat (n_spike_buffer_words example_recorded)"
    "n_buffers sp1 = max (old_n_buffers example_recorded) 4"
    "\<forall>k s. unat s < 32 * unat (n_spike_buffer_words example_recorded) \<longrightarrow>
       (layer_bit st1 k s \<longleftrightarrow> layer_bit example_recorded k s \<or> (s = 2 \<and> k < unat (4 :: uint32_t)))"
    by blast
  have w: "unat (n_spike_buffer_words example_recorded) = 1"
    by (simp add: example_recorded_def)
  from 1(7) w have bits: "layer_bit st1 3 2" "layer_bit st1 0 2"
    "layer_bit st1 1 1 \<longleftrightarrow> layer_bit example_recorded 1 1"
    "layer_bit st1 2 0 \<longleftrightarrow> layer_bit example_recorded 2 0"
    by simp_all
  from 1(2,3,5,6) have "n_spike_buffers_allocated st1 = 4"
    "calls st1 = [Spin1_malloc 24, Sark_free]"
    "length (out_spikes sp1) = 4" "n_buffers sp1 = 4"
    by (simp_all add: example_recorded_def old_n_buffers_def)
  with 1(1,4) bits have first: "\<exists>st1. mark_spike example_library 2 4 example_recorded = Inr st1
       \<and> n_spike_buffers_allocated st1 = 4
       \<and> calls st1 = [Spin1_malloc 24, Sark_free]
       \<and> (\<exists>sp1. spikes st1 = Some sp1 \<and> length (out_spikes sp1) = 4 \<and> n_buffers sp1 = 4)
       \<and> layer_bit st1 3 2 \<and> layer_bit st1 0 2
       \<and> (layer_bit st1 1 1 \<longleftrightarrow> layer_bit example_recorded 1 1)
       \<and> (layer_bit st1 2 0 \<longleftrightarrow> layer_bit example_recorded 2 0)"
    by blast
  from mark_spike_layers [of example_state 4 2 example_library ns st'] b
  have f: "\<forall>s k. s < ?N \<longrightarrow> (layer_bit st' k (of_nat s) \<longleftrightarrow> k < unat (ns ! s))"
    by blast
  have N: "?N = 3" by (simp add: example_state_def example_parameters_def)
  from f [rule_format, of 0 0] f [rule_format, of 0 1] f [rule_format, of 1 0]
    f [rule_format, of 1 1] f [rule_format, of 1 2] f [rule_format, of 2 0]
  have "layer_bit st' 0 0 \<and> \<not> layer_bit st' 1 0
       \<and> layer_bit st' 0 1 \<and> layer_bit st' 1 1 \<and> \<not> layer_bit st' 2 1
       \<and> \<not> layer_bit st' 0 2"
    unfolding N ns by simp
  with r ns first show ?thesis by blast
qed

end
